theory Spec2Isabelle
  imports Main "HOL-Library.Signed_Division"
begin

section \<open>C integers and C strings\<close>

text \<open>
  The program computes with C \<open>int\<close>. A value is an \<open>int\<close> of HOL and every arithmetic
  result the program stores in an \<open>int\<close> is reduced by \<open>int32\<close> to the two's-complement
  range, which is what the compiled program does when a signed operation overflows.
  Division and remainder are C's: they truncate towards zero (\<open>sdiv\<close>, \<open>smod\<close>).
\<close>

definition int32 :: "int \<Rightarrow> int" where
  "int32 x = (x + 2147483648) mod 4294967296 - 2147483648"

text \<open>
  What kills the process: a null stream given to \<open>fclose\<close>, a null pointer given to
  \<open>strcmp\<close>, a division by zero, a read or write outside an allocation, \<open>free\<close> of a
  pointer that \<open>malloc\<close> did not return, a read of bytes that were never written.
\<close>

datatype fault =
  NullStream | NullString | DivideByZero | OutOfBounds | InvalidFree | Uninitialised

text \<open>
  A buffer is a \<open>string\<close>: the bytes of the allocation. A function that reads up to the
  terminator stops at the first \<open>NUL\<close>; with no \<open>NUL\<close> in the buffer it reads past the
  allocation. A C string that the program passes on inside a larger buffer (a line, a
  token) is written without its terminator, and followed by \<open>NUL\<close> where it is read.
\<close>

definition NUL :: char where
  "NUL = CHR 0x00"

definition strlen :: "string \<Rightarrow> nat" where
  "strlen s = length (takeWhile (\<lambda>c. c \<noteq> NUL) s)"

subsection \<open>\<open>convert_str_to_int\<close>\<close>

text \<open>
  The \<open>switch\<close> of \<open>convert_str_to_int\<close> as the table of its cases; \<open>add\<close> stays \<open>-1\<close>
  for a character that has no case.
\<close>

definition switch_cases :: "(char \<times> int) list" where
  "switch_cases =
     [(CHR ''0'', 0), (CHR ''1'', 1), (CHR ''2'', 2), (CHR ''3'', 3), (CHR ''4'', 4),
      (CHR ''5'', 5), (CHR ''6'', 6), (CHR ''7'', 7), (CHR ''8'', 8), (CHR ''9'', 9)]"

definition digit_add :: "char \<Rightarrow> int" where
  "digit_add c = (case map_of switch_cases c of None \<Rightarrow> - 1 | Some add \<Rightarrow> add)"

text \<open>
  The \<open>while (c != '\0')\<close> loop, on the characters from \<open>index\<close> on and the running
  \<open>total\<close> (written \<open>total'\<close>).
\<close>

fun convert_loop :: "string \<Rightarrow> int \<Rightarrow> fault + int" where
  "convert_loop [] total' = Inl OutOfBounds"
| "convert_loop (c # str) total' =
     (if c = NUL then Inr total'
      else if digit_add c = - 1 then Inr (- 1)
      else convert_loop str (int32 (int32 (total' * 10) + digit_add c)))"

definition convert_str_to_int :: "string \<Rightarrow> fault + int" where
  "convert_str_to_int str = convert_loop str 0"

subsection \<open>\<open>get_num_digits\<close> and \<open>convert_int_to_string\<close>\<close>

function count_digits :: "int \<Rightarrow> int \<Rightarrow> int" where
  "count_digits i digits =
     (if i \<ge> 1 then count_digits (i sdiv 10) (int32 (digits + 1)) else digits)"
  by pat_completeness auto
termination
  by (relation "measure (\<lambda>(i, digits). nat i)")
    (auto simp: signed_divide_int_def sgn_if)

declare count_digits.simps [simp del]

definition get_num_digits :: "int \<Rightarrow> int" where
  "get_num_digits i0 =
     (let i = (if i0 < 0 then int32 (i0 * - 1) else i0)
      in if i = 0 then 1 else count_digits i 0)"

text \<open>
  The first loop of \<open>convert_int_to_string\<close>: \<open>str\<close> is the part of the buffer written so
  far, \<open>str[index] = '0' + d\<close> appends to it.
\<close>

function digits_loop :: "int \<Rightarrow> string \<Rightarrow> string" where
  "digits_loop i str =
     (if i > 0
      then let d = i smod 10
           in digits_loop ((i - d) sdiv 10) (str @ [char_of (48 + d)])
      else str)"
  by pat_completeness auto
termination
  by (relation "measure (\<lambda>(i, str). nat i)")
    (auto simp: signed_divide_int_def signed_modulo_int_def sgn_if)

declare digits_loop.simps [simp del]

text \<open>The second loop: the two pointers swap their characters and move towards each other.\<close>

function reverse_loop :: "string \<Rightarrow> int \<Rightarrow> int \<Rightarrow> string" where
  "reverse_loop str lptr rptr =
     (if lptr < rptr
      then let temp = str ! nat rptr
           in reverse_loop (str[nat rptr := str ! nat lptr, nat lptr := temp])
                (lptr + 1) (rptr - 1)
      else str)"
  by pat_completeness auto
termination
  by (relation "measure (\<lambda>(str, lptr, rptr). nat (rptr - lptr))") auto

declare reverse_loop.simps [simp del]

text \<open>
  The buffer returned. For \<open>i = 0\<close> it is the literal \<open>"0"\<close>, two bytes that \<open>malloc\<close>
  did not return. Otherwise it holds the digits and nothing else:
  \<open>malloc(get_num_digits(i))\<close> leaves no room for a terminator and none is written. (For
  \<open>i < 0\<close>, which the source excludes, no byte of it is written.) The callers in the program
  read it with \<open>strncat(path, str_pid, get_num_digits(pid))\<close>.
\<close>

definition convert_int_to_string :: "int \<Rightarrow> string" where
  "convert_int_to_string i =
     (if i = 0 then [CHR ''0'', NUL]
      else let str = digits_loop i []
           in reverse_loop str 0 (int (length str) - 1))"

section \<open>The stop condition\<close>

text \<open>
  The globals \<open>TARGET_TIME\<close>, \<open>KILL_STATE\<close> and \<open>START_TIME\<close>. The two times are
  \<open>double\<close>s in the source that only ever hold integers (a value of \<open>read_timer\<close>, of
  \<open>time(NULL)\<close>, or \<open>-1\<close>).
\<close>

record globals =
  TARGET_TIME :: int
  KILL_STATE :: int
  START_TIME :: int

definition check_timer :: "globals \<Rightarrow> int \<Rightarrow> int" where
  "check_timer g current_time =
     (if current_time - START_TIME g \<ge> TARGET_TIME g \<and> TARGET_TIME g \<noteq> - 1 then 1
      else if KILL_STATE g = 1 then 1
      else 0)"

text \<open>
  \<open>sig_handler\<close> sets \<open>KILL_STATE\<close>; the line it prints is an event of the loop in which
  the interrupt arrives (\<open>wait_loop\<close> below).
\<close>

definition sig_handler :: "globals \<Rightarrow> globals" where
  "sig_handler g = g\<lparr>KILL_STATE := 1\<rparr>"

section \<open>The world outside the program\<close>

text \<open>
  What the operating system and the C library answer is not decided by the program: it
  is a parameter \<open>w\<close> of the model. Every answer that can change while the program runs
  is indexed by a clock, a counter that the loops of the program advance, so that two
  calls made at different moments are free to get different answers.
  \<^item> \<open>fork_at w n\<close>: what \<open>fork()\<close> returns (\<open>-1\<close> on failure, \<open>0\<close> in the new process,
    the child's pid in the parent);
  \<^item> \<open>execvp_errno w file args\<close>: \<open>None\<close> when \<open>execvp\<close> replaces the process image,
    \<open>Some e\<close> when it returns with \<open>errno = e\<close>;
  \<^item> \<open>args_after w args\<close>: what the memory holds after the pointers that \<open>get_args\<close> has
    stored for the tokens \<open>args\<close>: \<open>Some extra\<close> when the pointers that follow, up to the
    first null pointer, point to the strings \<open>extra\<close> (\<open>Some []\<close> when a null pointer follows
    at once), \<open>None\<close> when reading them is a fault;
  \<^item> \<open>bufsiz w\<close>: the number of bytes a stream asks for when it fills its buffer;
  \<^item> \<open>wait_at w n pid\<close>: what \<open>waitpid(pid, NULL, WNOHANG)\<close> returns (\<open>0\<close> while the
    child runs);
  \<^item> \<open>proc_at w n path\<close>: the contents of the file \<open>fopen(path, "r")\<close> opens, \<open>None\<close>
    when it returns \<open>NULL\<close>;
  \<^item> \<open>fclose_null_returns w\<close>: whether \<open>fclose(NULL)\<close> returns. The C standard leaves the
    call undefined; the GNU C library reads through the pointer and the process is killed;
  \<^item> \<open>time_at w n\<close>: what \<open>time(NULL)\<close> returns;
  \<^item> \<open>sigint_at w n\<close>: whether a \<open>SIGINT\<close> has arrived since the clock was \<open>n - 1\<close>;
  \<^item> \<open>clk_tck w\<close>: what \<open>sysconf(_SC_CLK_TCK)\<close> returns.
\<close>

record world =
  fork_at :: "nat \<Rightarrow> int"
  execvp_errno :: "string \<Rightarrow> string list \<Rightarrow> int option"
  args_after :: "string list \<Rightarrow> string list option"
  bufsiz :: int
  wait_at :: "nat \<Rightarrow> int \<Rightarrow> int"
  proc_at :: "nat \<Rightarrow> string \<Rightarrow> string option"
  fclose_null_returns :: bool
  time_at :: "nat \<Rightarrow> int"
  sigint_at :: "nat \<Rightarrow> bool"
  clk_tck :: int

text \<open>
  What the program does that can be seen from outside: the lines it prints (a banner stands
  for the banner and the date that \<open>display_date\<close> prints after it) and the signals it sends.
  \<^item> \<open>StartingReport\<close>: \<open>Starting report, <date>\<close>
  \<^item> \<open>Started i path pid\<close>: \<open>[i] path, started successfully (pid: pid)\<close>
  \<^item> \<open>BadProgramEmpty i\<close>: \<open>[i] badprogram , failed to start\<close>
  \<^item> \<open>BadProgram i path\<close>: \<open>[i] badprogram path, failed to start\<close>
  \<^item> \<open>FileNotFound\<close>: \<open>macD: <file> not found\<close> on the error stream
  \<^item> \<open>Dots\<close>: \<open>...\<close>
  \<^item> \<open>NormalReport\<close>: \<open>Normal report, <date>\<close>
  \<^item> \<open>Running i cpu mem\<close>: \<open>[i] Running, cpu usage: cpu%, mem usage: mem MB\<close>
  \<^item> \<open>Exited i\<close>: \<open>[i] Exited\<close>
  \<^item> \<open>ExitingDots t\<close>: \<open>Exiting (total time: t seconds)\<close> and \<open>...\<close>, printed by
    \<open>periodic_reports\<close>
  \<^item> \<open>SignalReceived\<close>: \<open>Signal Received - \<close>
  \<^item> \<open>Terminating\<close>: \<open>Terminating, <date>\<close>
  \<^item> \<open>Terminated i\<close>: \<open>[i] Terminated\<close>
  \<^item> \<open>Kill pid\<close>: \<open>kill(pid, SIGKILL)\<close>
  \<^item> \<open>Exiting t\<close>: \<open>Exiting (total time: t seconds)\<close>, printed by \<open>terminate_program\<close>
  A path is what \<open>strtok\<close> returned: \<open>None\<close> is the null pointer.
\<close>

datatype event =
    StartingReport
  | Started nat "string option" int
  | BadProgramEmpty nat
  | BadProgram nat "string option"
  | FileNotFound
  | Dots
  | NormalReport
  | Running nat int int
  | Exited nat
  | ExitingDots int
  | SignalReceived
  | Terminating
  | Terminated nat
  | Kill int
  | Exiting int

text \<open>
  The ways the process stops being this program: \<open>exit\<close> (or \<open>return\<close> from \<open>main\<close>) with
  the lines printed so far and the exit code; \<open>execvp\<close> replacing the image (in the child);
  or a fault.
\<close>

datatype run =
    Exits "event list" int
  | Becomes string "string list"
  | Faults fault

fun prefix_run :: "event list \<Rightarrow> run \<Rightarrow> run" where
  "prefix_run evs (Exits tr code) = Exits (evs @ tr) code"
| "prefix_run evs (Becomes file args) = Becomes file args"
| "prefix_run evs (Faults f) = Faults f"

section \<open>Launching\<close>

subsection \<open>\<open>strtok\<close>, \<open>get_args\<close> and \<open>read_timer\<close>\<close>

text \<open>
  Modelled from the C library: \<open>strtok(s, " ")\<close> skips the spaces at the front of \<open>s\<close>;
  with nothing left it returns the null pointer (\<open>None\<close>), otherwise the token up to the
  next space, which it overwrites with a terminator; \<open>strtok(NULL, " ")\<close> goes on from the
  character after it (the second component). \<open>after_strtok s\<close> is the string the buffer
  \<open>s\<close> holds after the call: cut after its first token.
\<close>

definition strtok :: "string \<Rightarrow> (string \<times> string) option" where
  "strtok s =
     (let s1 = dropWhile (\<lambda>c. c = CHR '' '') s
      in if s1 = [] then None
         else Some (takeWhile (\<lambda>c. c \<noteq> CHR '' '') s1,
                    drop 1 (dropWhile (\<lambda>c. c \<noteq> CHR '' '') s1)))"

definition after_strtok :: "string \<Rightarrow> string" where
  "after_strtok s =
     takeWhile (\<lambda>c. c = CHR '' '') s
       @ takeWhile (\<lambda>c. c \<noteq> CHR '' '') (dropWhile (\<lambda>c. c = CHR '' '') s)"

text \<open>
  \<open>get_args\<close>: the tokens of the line, in order. The array has \<open>get_num_args(line)\<close>
  slots and the loop fills one per token; no null pointer is stored after the last.
\<close>

function get_args :: "string \<Rightarrow> string list" where
  "get_args line =
     (case strtok line of
        None \<Rightarrow> []
      | Some (token, rest) \<Rightarrow> token # get_args rest)"
  by pat_completeness auto
termination
proof (relation "measure length")
  fix line :: string and x2 token rest
  assume "strtok line = Some x2" "(token, rest) = x2"
  then have nonempty: "dropWhile (\<lambda>c. c = CHR '' '') line \<noteq> []"
    and rest: "rest = drop 1 (dropWhile (\<lambda>c. c \<noteq> CHR '' '') (dropWhile (\<lambda>c. c = CHR '' '') line))"
    by (auto simp: strtok_def Let_def split: if_splits)
  have "length rest < length (dropWhile (\<lambda>c. c = CHR '' '') line)"
    using nonempty unfolding rest
    by (cases "dropWhile (\<lambda>c. c = CHR '' '') line")
      (auto simp: less_Suc_eq_le length_dropWhile_le intro: le_trans [OF diff_le_self])
  also have "\<dots> \<le> length line"
    by (rule length_dropWhile_le)
  finally show "(rest, line) \<in> measure length" by simp
qed simp

declare get_args.simps [simp del]

definition get_num_args :: "string \<Rightarrow> int" where
  "get_num_args line = int (length (filter (\<lambda>c. c = CHR '' '') line)) + 1"

text \<open>
  \<open>read_timer\<close> returns the time limit and, since \<open>strtok\<close> writes into the line, the
  string the line holds afterwards. A line of spaces only gives \<open>strcmp\<close> a null pointer.
\<close>

definition read_timer :: "string option \<Rightarrow> fault + int \<times> string option" where
  "read_timer line =
     (case line of
        None \<Rightarrow> Inr (- 1, None)
      | Some l \<Rightarrow>
          if l = [] then Inr (- 1, Some l)
          else (case strtok l of
                  None \<Rightarrow> Inl NullString
                | Some (token, rest) \<Rightarrow>
                    if token = ''timelimit''
                    then (case strtok rest of
                            None \<Rightarrow> Inr (- 1, Some (after_strtok l))
                          | Some (token2, rest2) \<Rightarrow>
                              (case convert_str_to_int (token2 @ [NUL]) of
                                 Inl f \<Rightarrow> Inl f
                               | Inr timer \<Rightarrow> Inr (timer, Some (after_strtok l))))
                    else Inr (- 1, Some (after_strtok l))))"

subsection \<open>\<open>create_process\<close>\<close>

text \<open>
  The branch \<open>pid == 0\<close>, which runs in the new process. The test \<open>args[0] == NULL\<close> and
  \<open>execvp\<close> read the array of \<open>get_args\<close> up to the first null pointer, which the loop did
  not store: they see the tokens and then what the memory holds after them. \<open>exit(1)\<close>
  when the first pointer is null, otherwise \<open>execvp\<close>, and \<open>exit(errno)\<close> when it returns.
  Standard output is written line by line, so that the child has no output of the parent
  left to write when it exits.
\<close>

definition child_branch :: "world \<Rightarrow> string \<Rightarrow> run" where
  "child_branch w process_line =
     (let args = get_args process_line
      in case args_after w args of
           None \<Rightarrow> Faults OutOfBounds
         | Some extra \<Rightarrow>
             (case args @ extra of
                [] \<Rightarrow> Exits [] 1
              | file # rest \<Rightarrow>
                  (case execvp_errno w file (file # rest) of
                     None \<Rightarrow> Becomes file (file # rest)
                   | Some errno \<Rightarrow> Exits [] errno)))"

text \<open>
  \<open>create_process\<close> takes the value of \<open>*out_pid\<close> and returns the new one. The child's
  \<open>*out_pid = -1\<close> is a write in the child's own memory.
\<close>

definition create_process :: "world \<Rightarrow> nat \<Rightarrow> string \<Rightarrow> int \<Rightarrow> run + int" where
  "create_process w n process_line out_pid =
     (let pid = fork_at w n
      in if pid = - 1 then Inl (Exits [] 1)
         else if pid = 0 then Inl (child_branch w process_line)
         else let result = wait_at w n pid
              in if out_pid \<noteq> - 1 \<and> result = 0 then Inr pid else Inr out_pid)"


subsection \<open>\<open>read_file\<close>, given the lines it reads\<close>

definition MAX_PROCESSES :: int where
  "MAX_PROCESSES = 10"

text \<open>
  The input file is the list of the lines that successive calls of \<open>read_next_line\<close>
  return before it returns the null pointer. (Which lines these are for a given file is
  the matter of the next subsection.)

  The \<open>while (line != NULL)\<close> loop, on the lines still to read. \<open>pids\<close> is the part of the
  array written so far, so that \<open>index\<close> is its length; \<open>len_pids\<close> is the size of the array
  and a write at or beyond it is a fault. The counters \<open>index\<close>, \<open>line_number\<close> and
  \<open>len_pids\<close> are not reduced to 32 bits: the array would outgrow the memory first. The
  clock advances by one a line. The result is
  the lines printed, the array up to the \<open>-1\<close> that marks its end, and the clock.
\<close>

fun read_loop ::
  "world \<Rightarrow> nat \<Rightarrow> nat \<Rightarrow> int list \<Rightarrow> int \<Rightarrow> string list \<Rightarrow> run + event list \<times> int list \<times> nat"
where
  "read_loop w n line_number pids len_pids [] =
     (if int (length pids) < len_pids then Inr ([], pids @ [- 1], n)
      else Inl (Faults OutOfBounds))"
| "read_loop w n line_number pids len_pids (line # lines) =
     (case (if line \<noteq> [] then create_process w n line (- 2) else Inr (- 2)) of
        Inl r \<Rightarrow> Inl r
      | Inr out_pid \<Rightarrow>
          if out_pid \<ge> 0 \<and> \<not> int (length pids) < len_pids then Inl (Faults OutOfBounds)
          else
            let pids' = (if out_pid \<ge> 0 then pids @ [out_pid] else pids);
                ev = (if out_pid \<ge> 0
                      then Started line_number (map_option fst (strtok line)) out_pid
                      else if line = [] then BadProgramEmpty line_number
                      else BadProgram line_number (map_option fst (strtok line)));
                len_pids' = (if int (length pids') \<ge> len_pids - 1
                             then len_pids + MAX_PROCESSES else len_pids)
            in (case read_loop w (Suc n) (Suc line_number) pids' len_pids' lines of
                  Inl r \<Rightarrow> Inl (prefix_run [ev] r)
                | Inr (evs, table, n') \<Rightarrow> Inr (ev # evs, table, n')))"

text \<open>
  \<open>read_file\<close> on the file (\<open>None\<close> when \<open>fopen\<close> fails): the lines printed, the globals
  with \<open>TARGET_TIME\<close> set, the array returned (\<open>None\<close> is the null pointer) and the clock.
\<close>

definition read_file ::
  "world \<Rightarrow> globals \<Rightarrow> string list option
     \<Rightarrow> run + event list \<times> globals \<times> int list option \<times> nat"
where
  "read_file w g file =
     (case file of
        None \<Rightarrow> Inr ([FileNotFound], g, None, 0)
      | Some lines \<Rightarrow>
          (case read_timer (case lines of [] \<Rightarrow> None | line # rest \<Rightarrow> Some line) of
             Inl f \<Rightarrow> Inl (Faults f)
           | Inr (timer, line') \<Rightarrow>
               let todo = (if timer \<noteq> - 1 then tl lines
                           else (case line' of None \<Rightarrow> [] | Some l \<Rightarrow> l # tl lines))
               in (case read_loop w 0 0 [] MAX_PROCESSES todo of
                     Inl r \<Rightarrow> Inl (prefix_run [StartingReport] r)
                   | Inr (evs, table, n) \<Rightarrow>
                       Inr (StartingReport # evs, g\<lparr>TARGET_TIME := timer\<rparr>, Some table, n))))"

subsection \<open>\<open>read_file\<close>, on the file\<close>

text \<open>
  The body of the \<open>while (line != NULL)\<close> loop for one line: the end of the program, or
  the line printed, the array and its size.
\<close>

definition launch_step ::
  "world \<Rightarrow> nat \<Rightarrow> nat \<Rightarrow> int list \<Rightarrow> int \<Rightarrow> string \<Rightarrow> run + event \<times> int list \<times> int"
where
  "launch_step w n line_number pids len_pids line =
     (case (if line \<noteq> [] then create_process w n line (- 2) else Inr (- 2)) of
        Inl r \<Rightarrow> Inl r
      | Inr out_pid \<Rightarrow>
          if out_pid \<ge> 0 \<and> \<not> int (length pids) < len_pids then Inl (Faults OutOfBounds)
          else
            let pids' = (if out_pid \<ge> 0 then pids @ [out_pid] else pids);
                ev = (if out_pid \<ge> 0
                      then Started line_number (map_option fst (strtok line)) out_pid
                      else if line = [] then BadProgramEmpty line_number
                      else BadProgram line_number (map_option fst (strtok line)));
                len_pids' = (if int (length pids') \<ge> len_pids - 1
                             then len_pids + MAX_PROCESSES else len_pids)
            in Inr (ev, pids', len_pids'))"

text \<open>
  Modelled from the C library: the stream that \<open>fopen\<close> returns. It holds the bytes it has
  read from the file and not yet handed out (\<open>unread\<close>); \<open>offset\<close> is the position of the
  open file in the file, which the children share with the parent. \<open>fread\<close> of one byte
  hands out the next unread byte; with none left it first fills the buffer with a \<open>read\<close>
  of \<open>bufsiz\<close> bytes (at least one) from \<open>offset\<close> on, and returns 0 when there is none.
  \<open>read_bytes count bytes\<close> is what \<open>read\<close> of \<open>count\<close> bytes gets when \<open>bytes\<close> is the file
  from the offset on: the next \<open>count\<close> bytes, or those that are left.
\<close>

record stream =
  unread :: string
  offset :: nat

fun read_bytes :: "int \<Rightarrow> string \<Rightarrow> string" where
  "read_bytes count [] = []"
| "read_bytes count (c # bytes) = (if count \<le> 0 then [] else c # read_bytes (count - 1) bytes)"

lemma read_bytes_take: "read_bytes count bytes = take (nat count) bytes"
proof (induction bytes arbitrary: count)
  case Nil
  then show ?case by simp
next
  case (Cons c bytes)
  have "0 < count \<Longrightarrow> nat count = Suc (nat (count - 1))"
    by simp
  then show ?case
    using Cons.IH [of "count - 1"] by (cases "count \<le> 0") auto
qed

definition fread1 :: "world \<Rightarrow> string \<Rightarrow> stream \<Rightarrow> (char \<times> stream) option" where
  "fread1 w file st =
     (case unread st of
        c # rest \<Rightarrow> Some (c, st\<lparr>unread := rest\<rparr>)
      | [] \<Rightarrow>
          (case read_bytes (max 1 (bufsiz w)) (drop (offset st) file) of
             [] \<Rightarrow> None
           | c # rest \<Rightarrow> Some (c, \<lparr>unread = rest, offset = offset st + Suc (length rest)\<rparr>)))"

definition left_to_read :: "string \<Rightarrow> stream \<Rightarrow> nat" where
  "left_to_read file st = length (unread st) + (length file - offset st)"

lemma fread1_less:
  assumes "fread1 w file st = Some (c, st')"
  shows "left_to_read file st' < left_to_read file st"
proof (cases "unread st")
  case (Cons c' rest)
  with assms show ?thesis
    by (auto simp: fread1_def left_to_read_def)
next
  case Nil
  with assms obtain rest where
    t: "read_bytes (max 1 (bufsiz w)) (drop (offset st) file) = c # rest"
    and st': "st' = \<lparr>unread = rest, offset = offset st + Suc (length rest)\<rparr>"
    by (auto simp: fread1_def split: list.splits)
  have "length (c # rest) \<le> length (drop (offset st) file)"
    unfolding t [symmetric] by (simp add: read_bytes_take)
  then show ?thesis
    using Nil st' by (simp add: left_to_read_def)
qed

text \<open>
  The loop of \<open>read_next_line\<close>: \<open>scanner\<close> is the byte read last, \<open>line\<close> the bytes stored
  so far.
\<close>

function read_chars :: "world \<Rightarrow> string \<Rightarrow> char \<Rightarrow> stream \<Rightarrow> string \<Rightarrow> string \<times> stream" where
  "read_chars w file scanner st line =
     (if scanner \<noteq> CHR 0x0A
      then (case fread1 w file st of
              None \<Rightarrow> (line @ [scanner], st)
            | Some (c, st') \<Rightarrow> read_chars w file c st' (line @ [scanner]))
      else (line, st))"
  by pat_completeness auto
termination
  by (relation "measure (\<lambda>(w, file, scanner, st, line). left_to_read file st)")
    (auto dest: fread1_less)

declare read_chars.simps [simp del]

definition PATH_MAX :: int where
  "PATH_MAX = 4096"

definition MAX_ARG_LENGTH :: int where
  "MAX_ARG_LENGTH = 1000"

text \<open>
  \<open>read_next_line\<close> returns the null pointer (\<open>None\<close>) when its first \<open>fread\<close> returns 0,
  otherwise the bytes up to the next new line or the end of the file, as a C string.
  When the bytes fill the buffer of \<open>PATH_MAX + MAX_ARG_LENGTH\<close> bytes, the loop moves them
  to a larger one with \<open>strncpy(line, temp, n - 1)\<close>, which leaves the last of the \<open>n\<close>
  bytes behind: a line of that length or more is returned with a byte that was never
  written at the position \<open>PATH_MAX + MAX_ARG_LENGTH - 1\<close>, unless the string ends before it.
\<close>

definition read_next_line :: "world \<Rightarrow> string \<Rightarrow> stream \<Rightarrow> fault + string option \<times> stream" where
  "read_next_line w file st =
     (case fread1 w file st of
        None \<Rightarrow> Inr (None, st)
      | Some (scanner, st') \<Rightarrow>
          (case read_chars w file scanner st' [] of
             (line, st'') \<Rightarrow>
               if int (length line) \<ge> PATH_MAX + MAX_ARG_LENGTH
                  \<and> int (length (takeWhile (\<lambda>c. c \<noteq> NUL) line)) \<ge> PATH_MAX + MAX_ARG_LENGTH - 1
               then Inl Uninitialised
               else Inr (Some (takeWhile (\<lambda>c. c \<noteq> NUL) line), st'')))"

text \<open>
  The child has a copy of the stream, with the bytes that were unread at \<open>fork\<close>, and
  shares the offset. Modelled from the C library: \<open>exit\<close> gives back what a stream has read
  and not handed out, moving the offset back by that many bytes from where it is; a move
  to before the start of the file fails and leaves the offset. A child that becomes
  another program, or is killed by a fault, does not run this \<open>exit\<close>. The parent sleeps
  100 ms after \<open>fork\<close> and then looks: the model takes a child that is to run \<open>exit\<close>
  (\<open>child_branch\<close>) and has exited when the parent looks to have moved the offset by then,
  and no child to move it later. \<open>after_child\<close> is the stream of the parent after
  \<open>create_process\<close>.
\<close>

fun is_exit :: "run \<Rightarrow> bool" where
  "is_exit (Exits tr code) = True"
| "is_exit r = False"

definition after_child :: "world \<Rightarrow> nat \<Rightarrow> string \<Rightarrow> stream \<Rightarrow> stream" where
  "after_child w n line st =
     (if line \<noteq> [] \<and> wait_at w n (fork_at w n) \<noteq> 0 \<and> is_exit (child_branch w line)
         \<and> length (unread st) \<le> offset st
      then st\<lparr>offset := offset st - length (unread st)\<rparr>
      else st)"

text \<open>
  The \<open>while (line != NULL)\<close> loop on the stream: \<open>line\<close> is the line read last. The
  children can move the offset back so that the loop reads the same lines again without
  end: the first argument bounds the number of lines and \<open>None\<close> is a loop that has not
  ended within it.
\<close>

fun stream_loop ::
  "nat \<Rightarrow> world \<Rightarrow> string \<Rightarrow> stream \<Rightarrow> nat \<Rightarrow> nat \<Rightarrow> int list \<Rightarrow> int \<Rightarrow> string option
     \<Rightarrow> (run + event list \<times> int list \<times> nat) option"
where
  "stream_loop 0 w file st n line_number pids len_pids line = None"
| "stream_loop (Suc fuel) w file st n line_number pids len_pids None =
     Some (if int (length pids) < len_pids then Inr ([], pids @ [- 1], n)
           else Inl (Faults OutOfBounds))"
| "stream_loop (Suc fuel) w file st n line_number pids len_pids (Some line) =
     (case launch_step w n line_number pids len_pids line of
        Inl r \<Rightarrow> Some (Inl r)
      | Inr (ev, pids', len_pids') \<Rightarrow>
          (case read_next_line w file (after_child w n line st) of
             Inl f \<Rightarrow> Some (Inl (Faults f))
           | Inr (line', st') \<Rightarrow>
               (case stream_loop fuel w file st' (Suc n) (Suc line_number) pids' len_pids' line' of
                  None \<Rightarrow> None
                | Some (Inl r) \<Rightarrow> Some (Inl (prefix_run [ev] r))
                | Some (Inr (evs, table, n')) \<Rightarrow> Some (Inr (ev # evs, table, n')))))"

text \<open>
  \<open>read_file\<close> on the contents of the file (\<open>None\<close> when \<open>fopen\<close> fails), with the bound
  of the loop.
\<close>

definition read_file_stream ::
  "nat \<Rightarrow> world \<Rightarrow> globals \<Rightarrow> string option
     \<Rightarrow> (run + event list \<times> globals \<times> int list option \<times> nat) option"
where
  "read_file_stream fuel w g file =
     (case file of
        None \<Rightarrow> Some (Inr ([FileNotFound], g, None, 0))
      | Some contents \<Rightarrow>
          (case read_next_line w contents \<lparr>unread = [], offset = 0\<rparr> of
             Inl f \<Rightarrow> Some (Inl (Faults f))
           | Inr (line, st) \<Rightarrow>
               (case read_timer line of
                  Inl f \<Rightarrow> Some (Inl (Faults f))
                | Inr (timer, line') \<Rightarrow>
                    (case (if timer \<noteq> - 1 then read_next_line w contents st
                           else Inr (line', st)) of
                       Inl f \<Rightarrow> Some (Inl (Faults f))
                     | Inr (line'', st') \<Rightarrow>
                         (case stream_loop fuel w contents st' 0 0 [] MAX_PROCESSES line'' of
                            None \<Rightarrow> None
                          | Some (Inl r) \<Rightarrow> Some (Inl (prefix_run [StartingReport] r))
                          | Some (Inr (evs, table, n)) \<Rightarrow>
                              Some (Inr (StartingReport # evs, g\<lparr>TARGET_TIME := timer\<rparr>,
                                         Some table, n)))))))"

section \<open>Sampling\<close>

subsection \<open>Reading a statistics file\<close>

text \<open>
  A stream opened for reading is the characters not read yet. \<open>read_until_space\<close> returns
  the last result of \<open>fread\<close> and the stream; \<open>get_next_segment\<close> the segment and the stream.
\<close>

fun read_until_space :: "string \<Rightarrow> int \<times> string" where
  "read_until_space [] = (0, [])"
| "read_until_space (c # fptr) = (if c \<noteq> CHR '' '' then read_until_space fptr else (1, fptr))"

fun get_next_segment :: "string \<Rightarrow> string \<times> string" where
  "get_next_segment [] = ([], [])"
| "get_next_segment (c # fptr) =
     (if c \<noteq> CHR '' ''
      then (case get_next_segment fptr of (segment, fptr') \<Rightarrow> (c # segment, fptr'))
      else ([], fptr))"

text \<open>
  Modelled from the C library: \<open>atoi\<close> skips white space, reads an optional sign and the
  decimal digits that follow, and stops at the first other character; the value is
  converted to \<open>int\<close>.
\<close>

definition isspace :: "char \<Rightarrow> bool" where
  "isspace c \<longleftrightarrow> c \<in> {CHR '' '', CHR 0x09, CHR 0x0A, CHR 0x0B, CHR 0x0C, CHR 0x0D}"

fun atoi_digits :: "string \<Rightarrow> int \<Rightarrow> int" where
  "atoi_digits [] acc = acc"
| "atoi_digits (c # s) acc =
     (if digit_add c = - 1 then acc else atoi_digits s (acc * 10 + digit_add c))"

definition atoi :: "string \<Rightarrow> int" where
  "atoi s =
     (case dropWhile isspace s of
        [] \<Rightarrow> 0
      | c # s1 \<Rightarrow>
          if c = CHR ''-'' then int32 (- atoi_digits s1 0)
          else if c = CHR ''+'' then int32 (atoi_digits s1 0)
          else int32 (atoi_digits (c # s1) 0))"

subsection \<open>\<open>get_cpu_usage\<close> and \<open>get_mem_usage\<close>\<close>

text \<open>
  The path that the three \<open>strncat\<close> build. \<open>strncat(path, str_pid, n)\<close> appends the bytes
  of \<open>str_pid\<close> before its first \<open>NUL\<close>, and no more than \<open>n\<close>.
\<close>

definition proc_path :: "string \<Rightarrow> int \<Rightarrow> string \<Rightarrow> string" where
  "proc_path part1 pid part2 =
     part1
       @ take (nat (get_num_digits pid)) (takeWhile (\<lambda>c. c \<noteq> NUL) (convert_int_to_string pid))
       @ part2"

text \<open>The \<open>for\<close> loop over the first 13 segments: \<open>None\<close> when the file is not long enough.\<close>

fun skip_segments :: "nat \<Rightarrow> string \<Rightarrow> string option" where
  "skip_segments 0 fptr = Some fptr"
| "skip_segments (Suc k) fptr =
     (case read_until_space fptr of
        (r, fptr') \<Rightarrow> if r = 0 then None else skip_segments k fptr')"

text \<open>
  Both samplers build the path first: \<open>strncat\<close> reads \<open>str_pid\<close>, of which no byte is
  written for a negative \<open>pid\<close>, and \<open>free(str_pid)\<close> is given the literal for \<open>pid = 0\<close>.
\<close>

definition free_str_pid :: "int \<Rightarrow> fault option" where
  "free_str_pid pid =
     (if pid < 0 then Some Uninitialised else if pid = 0 then Some InvalidFree else None)"

definition get_cpu_usage :: "world \<Rightarrow> nat \<Rightarrow> int \<Rightarrow> fault + int" where
  "get_cpu_usage w n pid =
     (case free_str_pid pid of
        Some f \<Rightarrow> Inl f
      | None \<Rightarrow>
     (case proc_at w n (proc_path ''/proc/'' pid ''/stat'') of
        None \<Rightarrow> if fclose_null_returns w then Inr (- 1) else Inl NullStream
      | Some fptr \<Rightarrow>
          (case skip_segments 13 fptr of
             None \<Rightarrow> Inr (- 1)
           | Some fptr1 \<Rightarrow>
               (case get_next_segment fptr1 of
                  (s_user, fptr2) \<Rightarrow>
                    (case get_next_segment fptr2 of
                       (s_kernal, fptr3) \<Rightarrow>
                         let user_time = atoi s_user; kernal_time = atoi s_kernal
                         in Inr (int32 (user_time + kernal_time)))))))"

lemma get_next_segment_length:
  "get_next_segment fptr = (segment, fptr') \<Longrightarrow>
   length fptr' \<le> length fptr \<and> (segment \<noteq> [] \<longrightarrow> length fptr' < length fptr)"
  by (induction fptr arbitrary: segment fptr')
    (auto split: if_splits prod.splits simp: less_Suc_eq_le)

text \<open>The \<open>while (strlen(segment) != 0)\<close> loop: \<open>sumv\<close> is the variable \<open>sum\<close>.\<close>

function sum_segments :: "string \<Rightarrow> int \<Rightarrow> int" where
  "sum_segments fptr sumv =
     (case get_next_segment fptr of
        (segment, fptr') \<Rightarrow>
          if strlen segment \<noteq> 0 then sum_segments fptr' (int32 (sumv + atoi segment))
          else sumv)"
  by pat_completeness auto
termination
proof (relation "measure (\<lambda>(fptr, sumv). length fptr)")
  fix fptr :: string and sumv :: int and x segment fptr'
  assume "(segment, fptr') = get_next_segment fptr" "strlen segment \<noteq> 0"
  then have "get_next_segment fptr = (segment, fptr')" "segment \<noteq> []"
    by (auto simp: strlen_def)
  then show "((fptr', int32 (sumv + atoi segment)), (fptr, sumv))
      \<in> measure (\<lambda>(fptr, sumv). length fptr)"
    using get_next_segment_length by auto
qed simp

declare sum_segments.simps [simp del]

definition get_mem_usage :: "world \<Rightarrow> nat \<Rightarrow> int \<Rightarrow> fault + int" where
  "get_mem_usage w n pid =
     (case free_str_pid pid of
        Some f \<Rightarrow> Inl f
      | None \<Rightarrow>
     (case proc_at w n (proc_path ''/proc/'' pid ''/statm'') of
        None \<Rightarrow> if fclose_null_returns w then Inr (- 1) else Inl NullStream
      | Some fptr \<Rightarrow> Inr (sum_segments fptr 0 sdiv 1024)))"

section \<open>Supervising\<close>

subsection \<open>The arrays\<close>

text \<open>
  \<open>pids\<close> is the array \<open>read_file\<close> returns; reading on after its last element is a
  fault. \<open>len_pids\<close> counts up to the first \<open>-1\<close>.
\<close>

fun len_pids :: "int list \<Rightarrow> fault + nat" where
  "len_pids [] = Inl OutOfBounds"
| "len_pids (pid # pids) =
     (if pid \<noteq> - 1
      then (case len_pids pids of Inl f \<Rightarrow> Inl f | Inr len \<Rightarrow> Inr (Suc len))
      else Inr 0)"

text \<open>
  The loop of \<open>initialize_cpu_counters\<close>, on the elements of \<open>pids\<close> from \<open>i\<close> on;
  \<open>num_processes\<close> counts the elements still to do.
\<close>

fun initialize_cpu_counters :: "world \<Rightarrow> nat \<Rightarrow> int list \<Rightarrow> nat \<Rightarrow> fault + int list" where
  "initialize_cpu_counters w n pids 0 = Inr []"
| "initialize_cpu_counters w n [] (Suc num_processes) = Inl OutOfBounds"
| "initialize_cpu_counters w n (pid # pids) (Suc num_processes) =
     (case get_cpu_usage w n pid of
        Inl f \<Rightarrow> Inl f
      | Inr cpu \<Rightarrow>
          (case initialize_cpu_counters w (Suc n) pids num_processes of
             Inl f \<Rightarrow> Inl f
           | Inr counters \<Rightarrow> Inr ((if cpu < 0 then 0 else cpu) # counters)))"

subsection \<open>One pass over the processes\<close>

text \<open>\<open>5*sysconf(_SC_CLK_TCK)\<close>, stored in an \<open>int\<close>.\<close>

definition full_cpu_increase :: "world \<Rightarrow> int" where
  "full_cpu_increase w = int32 (5 * clk_tck w)"

text \<open>\<open>cpu_percent = ((cpu - counters[index])*100); cpu_percent = cpu_percent/full_cpu_increase\<close>\<close>

definition cpu_percent :: "int \<Rightarrow> int \<Rightarrow> int \<Rightarrow> int" where
  "cpu_percent cpu counter full = int32 (int32 (int32 (cpu - counter) * 100) sdiv full)"

text \<open>
  The \<open>while (pids[index] != -1)\<close> loop of \<open>periodic_reports\<close>. \<open>pids\<close> and \<open>counters\<close>
  are the two arrays from \<open>index\<close> on, and the clock advances by one a process. The result
  is the lines printed, \<open>counters\<close> from \<open>index\<close> on as the loop leaves it, \<open>done\<close>, and the
  clock.
\<close>

fun report_loop ::
  "world \<Rightarrow> int \<Rightarrow> nat \<Rightarrow> nat \<Rightarrow> int list \<Rightarrow> int list \<Rightarrow> int
     \<Rightarrow> fault + event list \<times> int list \<times> int \<times> nat"
where
  "report_loop w full n index [] counters done = Inl OutOfBounds"
| "report_loop w full n index (pid # pids) counters done =
     (if pid \<noteq> - 1
      then
        if wait_at w n pid = 0
        then
          (case get_cpu_usage w n pid of
             Inl f \<Rightarrow> Inl f
           | Inr cpu \<Rightarrow>
               (case counters of
                  [] \<Rightarrow> Inl OutOfBounds
                | counter # counters' \<Rightarrow>
                    (case get_mem_usage w n pid of
                       Inl f \<Rightarrow> Inl f
                     | Inr mem \<Rightarrow>
                         if full = 0 then Inl DivideByZero
                         else
                           (case report_loop w full (Suc n) (Suc index) pids counters' 0 of
                              Inl f \<Rightarrow> Inl f
                            | Inr (evs, cs, done', n') \<Rightarrow>
                                Inr (Running index (cpu_percent cpu counter full) mem # evs,
                                     cpu # cs, done', n')))))
        else
          (case report_loop w full (Suc n) (Suc index) pids (tl counters) done of
             Inl f \<Rightarrow> Inl f
           | Inr (evs, cs, done', n') \<Rightarrow>
               Inr (Exited index # evs, take 1 counters @ cs, done', n'))
      else Inr ([], counters, done, n))"

subsection \<open>\<open>terminate_program\<close>\<close>

text \<open>The \<open>while (pid != -1)\<close> loop, on \<open>pids\<close> from \<open>index\<close> on.\<close>

fun terminate_loop :: "world \<Rightarrow> nat \<Rightarrow> nat \<Rightarrow> int list \<Rightarrow> fault + event list" where
  "terminate_loop w n index [] = Inl OutOfBounds"
| "terminate_loop w n index (pid # pids) =
     (if pid \<noteq> - 1
      then
        (case terminate_loop w (Suc n) (Suc index) pids of
           Inl f \<Rightarrow> Inl f
         | Inr evs \<Rightarrow>
             Inr ((if wait_at w n pid = 0 then [Terminated index, Kill pid] else [Exited index])
                  @ evs))
      else Inr [])"

text \<open>\<open>terminate_program\<close> ends in \<open>exit(0)\<close>: its value is how the program ends.\<close>

definition terminate_program :: "world \<Rightarrow> nat \<Rightarrow> int list \<Rightarrow> int \<Rightarrow> run" where
  "terminate_program w n pids elapsed_time =
     (case terminate_loop w n 0 pids of
        Inl f \<Rightarrow> Faults f
      | Inr evs \<Rightarrow> Exits ([Terminating] @ evs @ [Exiting elapsed_time]) 0)"

subsection \<open>\<open>periodic_reports\<close>\<close>

text \<open>
  The loop \<open>while (current_time - t < 5)\<close>. It ends when the clock of the host moves on,
  which the program does not decide: the first argument bounds the number of iterations and
  \<open>None\<close> is a loop that has not ended within it. An interrupt that has arrived runs
  \<open>sig_handler\<close> before the loop reads the time. The result is the end of the program
  (\<open>Inl\<close>, by \<open>terminate_program\<close>) or the lines printed, the globals and the clock.
\<close>

fun wait_loop ::
  "nat \<Rightarrow> world \<Rightarrow> globals \<Rightarrow> int list \<Rightarrow> int \<Rightarrow> int \<Rightarrow> nat
     \<Rightarrow> (run + event list \<times> globals \<times> nat) option"
where
  "wait_loop 0 w g pids t current_time n = None"
| "wait_loop (Suc fuel) w g pids t current_time n =
     (if current_time - t < 5
      then
        let g' = (if sigint_at w n then sig_handler g else g);
            ev = (if sigint_at w n then [SignalReceived] else []);
            current_time' = time_at w n
        in if check_timer g' current_time' = 1
           then Some (Inl (prefix_run ev
                  (terminate_program w (Suc n) pids (current_time' - START_TIME g'))))
           else (case wait_loop fuel w g' pids t current_time' (Suc n) of
                   None \<Rightarrow> None
                 | Some (Inl r) \<Rightarrow> Some (Inl (prefix_run ev r))
                 | Some (Inr (evs, g'', n')) \<Rightarrow> Some (Inr (ev @ evs, g'', n')))
      else Some (Inr ([], g, n)))"

text \<open>The loop \<open>while (1)\<close>, bounded in the same way.\<close>

fun periodic_loop ::
  "nat \<Rightarrow> world \<Rightarrow> globals \<Rightarrow> int \<Rightarrow> int list \<Rightarrow> int list \<Rightarrow> nat \<Rightarrow> run option"
where
  "periodic_loop 0 w g full pids counters n = None"
| "periodic_loop (Suc fuel) w g full pids counters n =
     (case report_loop w full n 0 pids counters 1 of
        Inl f \<Rightarrow> Some (Faults f)
      | Inr (evs, counters', done, n') \<Rightarrow>
          if done = 1
          then Some (Exits ([Dots, NormalReport] @ evs
                              @ [ExitingDots (time_at w n' - START_TIME g)]) 0)
          else
            (case wait_loop fuel w g pids (time_at w n') (time_at w n') (Suc n') of
               None \<Rightarrow> None
             | Some (Inl r) \<Rightarrow> Some (prefix_run ([Dots, NormalReport] @ evs @ [Dots]) r)
             | Some (Inr (evs', g', n'')) \<Rightarrow>
                 (case periodic_loop fuel w g' full pids counters' n'' of
                    None \<Rightarrow> None
                  | Some r \<Rightarrow> Some (prefix_run ([Dots, NormalReport] @ evs @ [Dots] @ evs') r))))"

definition periodic_reports :: "nat \<Rightarrow> world \<Rightarrow> globals \<Rightarrow> int list \<Rightarrow> nat \<Rightarrow> run option" where
  "periodic_reports fuel w g pids n =
     (case len_pids pids of
        Inl f \<Rightarrow> Some (Faults f)
      | Inr len \<Rightarrow>
          (case initialize_cpu_counters w n pids len of
             Inl f \<Rightarrow> Some (Faults f)
           | Inr counters \<Rightarrow>
               periodic_loop fuel w g (full_cpu_increase w) pids counters (n + len)))"

subsection \<open>\<open>main\<close>\<close>

text \<open>
  \<open>main\<close> called with \<open>-i\<close> and a file: \<open>read_file\<close>, then the start time,
  \<open>register_handler\<close> (\<open>sigaction\<close> succeeds) and \<open>periodic_reports\<close>, which does not
  return. The first argument bounds the loop of \<open>read_file\<close> and the loops of
  \<open>periodic_reports\<close>.
\<close>

definition initial_globals :: globals where
  "initial_globals = \<lparr>TARGET_TIME = - 1, KILL_STATE = - 1, START_TIME = 0\<rparr>"

definition main :: "nat \<Rightarrow> world \<Rightarrow> string option \<Rightarrow> run option" where
  "main fuel w file =
     (case read_file_stream fuel w initial_globals file of
        None \<Rightarrow> None
      | Some (Inl r) \<Rightarrow> Some r
      | Some (Inr (evs, g, None, n)) \<Rightarrow> Some (Exits evs 1)
      | Some (Inr (evs, g, Some pids, n)) \<Rightarrow>
          (case periodic_reports fuel w (g\<lparr>START_TIME := time_at w n\<rparr>) pids (Suc n) of
             None \<Rightarrow> None
           | Some r \<Rightarrow> Some (prefix_run evs r)))"

section \<open>Notions used to state the properties\<close>

text \<open>
  The fields of a statistics file: its text cut at every space. \<open>statm_values\<close> are the
  numbers \<open>atoi\<close> reads in the fields before the first empty one.
\<close>

fun split_spaces :: "string \<Rightarrow> string list" where
  "split_spaces [] = [[]]"
| "split_spaces (c # s) =
     (if c = CHR '' '' then [] # split_spaces s
      else (case split_spaces s of [] \<Rightarrow> [[c]] | x # xs \<Rightarrow> (c # x) # xs))"

definition statm_values :: "string \<Rightarrow> int list" where
  "statm_values fptr = map atoi (takeWhile (\<lambda>segment. strlen segment \<noteq> 0) (split_spaces fptr))"


text \<open>
  What the parent makes of one line at clock \<open>n\<close> when \<open>fork\<close> neither fails nor returns
  0: \<open>launch_pid\<close> is the value of \<open>*out_pid\<close> after the line (the pid of the child if the
  line is not empty and the child still runs at the check that follows the 100 ms delay,
  otherwise \<open>-2\<close>), \<open>launch_event\<close> the line printed for it.
\<close>

definition launch_pid :: "world \<Rightarrow> nat \<Rightarrow> string \<Rightarrow> int" where
  "launch_pid w n line =
     (if line \<noteq> [] \<and> wait_at w n (fork_at w n) = 0 then fork_at w n else - 2)"

definition launch_event :: "world \<Rightarrow> nat \<Rightarrow> nat \<Rightarrow> string \<Rightarrow> event" where
  "launch_event w n line_number line =
     (if launch_pid w n line \<ge> 0
      then Started line_number (map_option fst (strtok line)) (launch_pid w n line)
      else if line = [] then BadProgramEmpty line_number
      else BadProgram line_number (map_option fst (strtok line)))"


text \<open>
  The index a line shows in its brackets, and the table \<open>read_file\<close> builds from the
  lines: the pids of the lines that started.
\<close>

fun shown_index :: "event \<Rightarrow> nat option" where
  "shown_index (Started i path pid) = Some i"
| "shown_index (BadProgramEmpty i) = Some i"
| "shown_index (BadProgram i path) = Some i"
| "shown_index (Running i cpu mem) = Some i"
| "shown_index (Exited i) = Some i"
| "shown_index (Terminated i) = Some i"
| "shown_index e = None"

definition launch_table :: "world \<Rightarrow> string list \<Rightarrow> int list" where
  "launch_table w lines =
     filter (\<lambda>p. p \<ge> 0) (map (\<lambda>k. launch_pid w k (lines ! k)) [0..<length lines])"


text \<open>
  The contents of the file whose lines are \<open>lines\<close>, every line ended by a new line. The
  launch lines among the lines printed, and the pids of those that report a start.
\<close>

definition file_lines :: "string list \<Rightarrow> string" where
  "file_lines lines = concat (map (\<lambda>line. line @ [CHR 0x0A]) lines)"

text \<open>
  What a stream has still to hand out when nothing moves the offset: the bytes it holds
  and the rest of the file. \<open>gives_back\<close>: the child of the line launched at clock \<open>n\<close> runs
  \<open>exit\<close> in this program and has exited when the parent looks.
\<close>

definition to_read :: "string \<Rightarrow> stream \<Rightarrow> string" where
  "to_read file st = unread st @ drop (offset st) file"

definition gives_back :: "world \<Rightarrow> nat \<Rightarrow> string \<Rightarrow> bool" where
  "gives_back w n line \<longleftrightarrow>
     line \<noteq> [] \<and> wait_at w n (fork_at w n) \<noteq> 0 \<and> is_exit (child_branch w line)"

fun started_pid :: "event \<Rightarrow> int option" where
  "started_pid (Started i path pid) = Some pid"
| "started_pid e = None"

definition started_pids :: "event list \<Rightarrow> int list" where
  "started_pids evs = List.map_filter started_pid evs"

fun launch_line :: "event \<Rightarrow> bool" where
  "launch_line (Started i path pid) = True"
| "launch_line (BadProgramEmpty i) = True"
| "launch_line (BadProgram i path) = True"
| "launch_line e = False"


text \<open>What only \<open>terminate_program\<close> does: its banner, a \<open>Terminated\<close> line, a kill.\<close>

fun handler_event :: "event \<Rightarrow> bool" where
  "handler_event Terminating = True"
| "handler_event (Terminated i) = True"
| "handler_event (Kill pid) = True"
| "handler_event e = False"

section \<open>Example worlds\<close>

text \<open>
  Concrete worlds, on which the theorems below are instantiated.
  \<^item> \<open>w6\<close>: an interrupt is pending at every moment.
  \<^item> \<open>w4\<close>, \<open>w5\<close>: the process 7 runs, every other has exited; no statistics file exists.
    \<open>w5g\<close>: the same with the GNU C library, where \<open>fclose(NULL)\<close> does not return.
  \<^item> \<open>w1\<close>: the processes 8 and 9 run; 8 has used 100 + 50 ticks, 9 has used 1000 + 600.
  \<^item> \<open>w7\<close>: the lines get the pids 100, 101, ...; the child 101 has exited when the parent
    looks; \<open>execvp\<close> fails for \<open>nosuch\<close> with \<open>ENOENT\<close>. \<open>w7f\<close>: the third \<open>fork\<close> fails.
    \<open>w7c\<close>: as the child 101 sees it, the second \<open>fork\<close> returns 0. \<open>w7x\<close>: every child has
    exited when the parent looks.
  \<^item> \<open>w8\<close>: every \<open>fork\<close> and \<open>execvp\<close> succeeds and every child has exited when the
    parent looks. \<open>w8a\<close>: every child still runs then.
  \<^item> \<open>w2\<close>: the child 100 has exited when the parent looks, the child 101 runs; an
    interrupt arrives at clock 6.
  \<^item> \<open>w3q\<close>: the process 7 runs until clock 8, then has exited; no interrupt.
  \<^item> \<open>w3\<close>: every process has exited and an interrupt is pending at every moment.
\<close>

definition w6 :: world where
  "w6 = \<lparr>fork_at = (\<lambda>n. - 1), execvp_errno = (\<lambda>file args. None),
     args_after = (\<lambda>args. Some []), bufsiz = 4096,
     wait_at = (\<lambda>n pid. 0), proc_at = (\<lambda>n path. None), fclose_null_returns = True,
     time_at = (\<lambda>n. 1003), sigint_at = (\<lambda>n. True), clk_tck = 100\<rparr>"

definition w4 :: world where
  "w4 = \<lparr>fork_at = (\<lambda>n. - 1), execvp_errno = (\<lambda>file args. None),
     args_after = (\<lambda>args. Some []), bufsiz = 4096,
     wait_at = (\<lambda>n pid. if pid = 7 then 0 else pid), proc_at = (\<lambda>n path. None),
     fclose_null_returns = True,
     time_at = (\<lambda>n. 1003), sigint_at = (\<lambda>n. False), clk_tck = 100\<rparr>"

definition w1 :: world where
  "w1 = \<lparr>fork_at = (\<lambda>n. - 1), execvp_errno = (\<lambda>file args. None),
     args_after = (\<lambda>args. Some []), bufsiz = 4096,
     wait_at = (\<lambda>n pid. 0),
     proc_at = (\<lambda>n path.
        if path = ''/proc/8/stat''
        then Some ''8 (sleep) S 1 8 8 0 -1 4194304 100 0 0 0 100 50 0 0 20 0 1 0 5 1000 20''
        else if path = ''/proc/9/stat''
        then Some ''9 (yes) R 1 9 9 0 -1 4194304 100 0 0 0 1000 600 0 0 20 0 1 0 5 1000 20''
        else if path = ''/proc/8/statm'' \<or> path = ''/proc/9/statm''
        then Some (''1000 2000 3000 0 0 0 0'' @ [CHR 0x0A])
        else None),
     fclose_null_returns = True,
     time_at = (\<lambda>n. 1003), sigint_at = (\<lambda>n. False), clk_tck = 100\<rparr>"

definition w5 :: world where
  "w5 = \<lparr>fork_at = (\<lambda>n. - 1), execvp_errno = (\<lambda>file args. None),
     args_after = (\<lambda>args. Some []), bufsiz = 4096,
     wait_at = (\<lambda>n pid. if pid = 7 then 0 else pid), proc_at = (\<lambda>n path. None),
     fclose_null_returns = True,
     time_at = (\<lambda>n. 1003), sigint_at = (\<lambda>n. False), clk_tck = 100\<rparr>"

definition w5g :: world where
  "w5g = w5\<lparr>fclose_null_returns := False\<rparr>"

definition w7 :: world where
  "w7 = \<lparr>fork_at = (\<lambda>n. 100 + int n),
     execvp_errno = (\<lambda>file args. if file = ''nosuch'' then Some 2 else None),
     args_after = (\<lambda>args. Some []), bufsiz = 4096,
     wait_at = (\<lambda>n pid. if pid = 101 then 101 else 0), proc_at = (\<lambda>n path. None),
     fclose_null_returns = True,
     time_at = (\<lambda>n. 1003), sigint_at = (\<lambda>n. False), clk_tck = 100\<rparr>"

definition w7f :: world where
  "w7f = w7\<lparr>fork_at := (\<lambda>n. if n = 2 then - 1 else 100 + int n)\<rparr>"

definition w7c :: world where
  "w7c = w7\<lparr>fork_at := (\<lambda>n. if n = 1 then 0 else 100 + int n)\<rparr>"

definition w7x :: world where
  "w7x = w7\<lparr>wait_at := (\<lambda>n pid. pid)\<rparr>"



definition w2 :: world where
  "w2 = \<lparr>fork_at = (\<lambda>n. 100 + int n),
     execvp_errno = (\<lambda>file args. if file = ''nosuch'' then Some 2 else None),
     args_after = (\<lambda>args. Some []), bufsiz = 4096,
     wait_at = (\<lambda>n pid. if pid = 100 then 100 else 0),
     proc_at = (\<lambda>n path.
        if path = ''/proc/101/stat''
        then Some ''101 (sleep) S 1 101 101 0 -1 4194304 100 0 0 0 100 50 0 0 20 0 1 0 5 1000 20''
        else if path = ''/proc/101/statm''
        then Some (''1000 2000 3000 0 0 0 0'' @ [CHR 0x0A])
        else None),
     fclose_null_returns = True,
     time_at = (\<lambda>n. 1000 + int n), sigint_at = (\<lambda>n. n = 6), clk_tck = 100\<rparr>"

definition w3q :: world where
  "w3q = \<lparr>fork_at = (\<lambda>n. - 1), execvp_errno = (\<lambda>file args. None),
     args_after = (\<lambda>args. Some []), bufsiz = 4096,
     wait_at = (\<lambda>n pid. if n < 8 then 0 else pid),
     proc_at = (\<lambda>n path.
        if path = ''/proc/7/stat''
        then Some ''7 (sleep) S 1 7 7 0 -1 4194304 100 0 0 0 100 50 0 0 20 0 1 0 5 1000 20''
        else if path = ''/proc/7/statm''
        then Some (''1000 2000 3000 0 0 0 0'' @ [CHR 0x0A])
        else None),
     fclose_null_returns = True,
     time_at = (\<lambda>n. 1000 + 3 * int n), sigint_at = (\<lambda>n. False), clk_tck = 100\<rparr>"

definition w3 :: world where
  "w3 = \<lparr>fork_at = (\<lambda>n. - 1), execvp_errno = (\<lambda>file args. None),
     args_after = (\<lambda>args. Some []), bufsiz = 4096,
     wait_at = (\<lambda>n pid. pid), proc_at = (\<lambda>n path. None),
     fclose_null_returns = True,
     time_at = (\<lambda>n. 1000 + int n), sigint_at = (\<lambda>n. True), clk_tck = 100\<rparr>"

section \<open>Number conversion\<close>

lemma int32_id: "- 2147483648 \<le> x \<Longrightarrow> x < 2147483648 \<Longrightarrow> int32 x = x"
  by (simp add: int32_def)

lemma swap_take: "a < b \<Longrightarrow> b < length xs \<Longrightarrow>
   take (Suc a) (xs[b := xs ! a, a := xs ! b]) = take a xs @ [xs ! b]"
  by (simp add: take_Suc_conv_app_nth)

lemma swap_drop: "a < b \<Longrightarrow> b < length xs \<Longrightarrow>
   drop b (xs[b := xs ! a, a := xs ! b]) = xs ! a # drop (Suc b) xs"
  by (simp add: Cons_nth_drop_Suc [symmetric] drop_update_swap list_update_swap)

lemma swap_mid: "a < b \<Longrightarrow> b < length xs \<Longrightarrow>
   drop (Suc a) (take b (xs[b := xs ! a, a := xs ! b])) = drop (Suc a) (take b xs)"
  by (rule nth_equalityI) auto

lemma mid_split:
  assumes "a < b" "b < length xs"
  shows "drop a (take (Suc b) xs) = xs ! a # drop (Suc a) (take b xs) @ [xs ! b]"
proof -
  have "take (Suc b) xs = take b xs @ [xs ! b]"
    using assms by (simp add: take_Suc_conv_app_nth)
  moreover have "drop a (take b xs) = xs ! a # drop (Suc a) (take b xs)"
    using assms Cons_nth_drop_Suc [of a "take b xs"] by simp
  ultimately show ?thesis using assms by simp
qed

lemma reverse_loop_rev_aux:
  "0 \<le> l \<Longrightarrow> l \<le> r + 1 \<Longrightarrow> r < int (length str) \<Longrightarrow>
   reverse_loop str l r =
     take (nat l) str @ rev (drop (nat l) (take (nat (r + 1)) str)) @ drop (nat (r + 1)) str"
proof (induction str l r rule: reverse_loop.induct)
  case (1 str lptr rptr)
  show ?case
  proof (cases "lptr < rptr")
    case False
    with 1(2,3) have r: "rptr = lptr \<or> rptr + 1 = lptr" by arith
    have stop: "reverse_loop str lptr rptr = str"
      using False by (subst reverse_loop.simps) simp
    from r show ?thesis
    proof
      assume e: "rptr = lptr"
      have "nat (lptr + 1) = Suc (nat lptr)" using 1(2) by simp
      moreover have "nat lptr < length str" using 1(2,4) e by simp
      ultimately show ?thesis using e stop
        by (simp add: take_Suc_conv_app_nth Cons_nth_drop_Suc)
    next
      assume "rptr + 1 = lptr"
      then show ?thesis using stop by simp
    qed
  next
    case True
    define a where "a = nat lptr"
    define b where "b = nat rptr"
    have ab: "a < b" "b < length str" using True 1(2,4) by (simp_all add: a_def b_def)
    have n: "nat (lptr + 1) = Suc a" "nat (rptr - 1 + 1) = b" "nat (rptr + 1) = Suc b"
      using True 1(2) by (simp_all add: a_def b_def)
    let ?s = "str[b := str ! a, a := str ! b]"
    have "reverse_loop str lptr rptr = reverse_loop ?s (lptr + 1) (rptr - 1)"
      using True by (subst reverse_loop.simps) (simp add: a_def b_def Let_def)
    also have "\<dots> = take (Suc a) ?s @ rev (drop (Suc a) (take b ?s)) @ drop b ?s"
      using "1.IH" [OF True refl] True 1(2,4) n by (simp add: a_def b_def)
    also have "\<dots> = take a str @ rev (drop a (take (Suc b) str)) @ drop (Suc b) str"
      by (simp only: swap_take [OF ab] swap_drop [OF ab] swap_mid [OF ab] mid_split [OF ab]) simp
    finally show ?thesis by (simp add: n a_def)
  qed
qed

lemma reverse_loop_rev: "reverse_loop str 0 (int (length str) - 1) = rev str"
  using reverse_loop_rev_aux [of 0 "int (length str) - 1" str] by simp


lemma digit_char:
  assumes "0 \<le> d" "d \<le> 9"
  shows "digit_add (char_of (48 + d)) = d \<and> char_of (48 + d) \<noteq> NUL"
proof -
  from assms have "d = 0 \<or> d = 1 \<or> d = 2 \<or> d = 3 \<or> d = 4 \<or> d = 5 \<or> d = 6 \<or> d = 7 \<or> d = 8 \<or> d = 9"
    by arith
  then show ?thesis
    by (elim disjE) (simp_all add: digit_add_def switch_cases_def NUL_def char_of_def)
qed

lemma digits_loop_app: "digits_loop i (xs @ str) = xs @ digits_loop i str"
proof (induction i str arbitrary: xs rule: digits_loop.induct)
  case (1 i str)
  show ?case
  proof (cases "i > 0")
    case True
    have "digits_loop i (xs @ str) =
        digits_loop ((i - i smod 10) sdiv 10) (xs @ str @ [char_of (48 + i smod 10)])"
      using True by (subst digits_loop.simps) (simp add: Let_def)
    also have "\<dots> = xs @ digits_loop ((i - i smod 10) sdiv 10) (str @ [char_of (48 + i smod 10)])"
      using "1.IH" [OF True refl] .
    also have "\<dots> = xs @ digits_loop i str"
      using True by (subst (2) digits_loop.simps) (simp add: Let_def)
    finally show ?thesis .
  next
    case False
    then show ?thesis by (simp add: digits_loop.simps [of i])
  qed
qed

lemma digits_loop_step:
  assumes "i > 0"
  shows "digits_loop i [] = char_of (48 + i mod 10) # digits_loop (i div 10) []"
proof -
  have d: "i smod 10 = i mod 10" "(i - i mod 10) sdiv 10 = i div 10"
    using assms by (simp_all add: signed_modulo_int_def signed_divide_int_def sgn_if
        minus_mod_eq_mult_div)
  have "digits_loop i [] = digits_loop (i div 10) ([char_of (48 + i mod 10)] @ [])"
    using assms d by (subst digits_loop.simps) (simp add: Let_def)
  then show ?thesis by (simp only: digits_loop_app) simp
qed

lemma convert_digits:
  "0 \<le> i \<Longrightarrow> i < 2147483648 \<Longrightarrow>
   convert_loop (rev (digits_loop i []) @ ys) 0 = convert_loop ys i"
proof (induction "nat i" arbitrary: i ys rule: less_induct)
  case less
  show ?case
  proof (cases "i = 0")
    case True
    then show ?thesis by (simp add: digits_loop.simps [of 0])
  next
    case False
    with less.prems have pos: "i > 0" by simp
    let ?d = "i mod 10"
    have dr: "0 \<le> ?d" "?d \<le> 9" by simp_all
    have ne: "?d \<noteq> - 1" using pos_mod_sign [of 10 i] by linarith
    have q: "0 \<le> i div 10" "i div 10 < 2147483648" "nat (i div 10) < nat i"
      using pos less.prems by simp_all
    have "convert_loop (rev (digits_loop i []) @ ys) 0 =
        convert_loop (rev (digits_loop (i div 10) []) @ (char_of (48 + ?d) # ys)) 0"
      by (simp add: digits_loop_step [OF pos])
    also have "\<dots> = convert_loop (char_of (48 + ?d) # ys) (i div 10)"
      using less.hyps [OF q(3) q(1) q(2)] .
    also have "\<dots> = convert_loop ys (int32 (int32 (i div 10 * 10) + ?d))"
      using digit_char [OF dr] ne by simp
    also have "int32 (i div 10 * 10) = i div 10 * 10"
      using less.prems pos by (intro int32_id) simp_all
    also have "int32 (i div 10 * 10 + ?d) = i"
      using less.prems by (simp add: int32_id)
    finally show ?thesis .
  qed
qed


lemma nondigit_add: "c \<notin> set ''0123456789'' \<Longrightarrow> digit_add c = - 1"
  by (simp add: digit_add_def switch_cases_def)

lemma convert_loop_nondigit:
  "\<exists>c \<in> set (takeWhile (\<lambda>c. c \<noteq> NUL) str). digit_add c = - 1 \<Longrightarrow>
   convert_loop str t = Inr (- 1)"
  by (induction str arbitrary: t) (auto split: if_splits)

text \<open>
  What does hold of the two conversions. The digits that \<open>convert_int_to_string\<close> writes
  for an \<open>int\<close> \<open>i > 0\<close> lead \<open>convert_str_to_int\<close> to the total \<open>i\<close> and to the byte after
  them: with a terminator there it returns \<open>i\<close>, and with no byte there it reads past the
  buffer. The literal returned for 0 has its terminator. And a character that is not a
  decimal digit, before the terminator, gives \<open>-1\<close>.
\<close>

lemma convert_after_digits:
  assumes "0 < i" "i < 2147483648"
  shows "convert_str_to_int (convert_int_to_string i @ ys) = convert_loop ys i"
  using assms convert_digits [of i ys]
  by (simp add: convert_str_to_int_def convert_int_to_string_def Let_def reverse_loop_rev)

lemma convert_terminated:
  assumes "0 < i" "i < 2147483648"
  shows "convert_str_to_int (convert_int_to_string i @ [NUL]) = Inr i"
  using convert_after_digits [OF assms, of "[NUL]"] by simp

lemma convert_unterminated:
  assumes "0 < i" "i < 2147483648"
  shows "convert_str_to_int (convert_int_to_string i) = Inl OutOfBounds"
  using convert_after_digits [OF assms, of "[]"] by simp

lemma convert_zero: "convert_str_to_int (convert_int_to_string 0) = Inr 0"
  by (simp add: convert_str_to_int_def convert_int_to_string_def digit_add_def
      switch_cases_def NUL_def int32_def)

lemma convert_nondigit:
  assumes "\<exists>c \<in> set (takeWhile (\<lambda>c. c \<noteq> NUL) str). c \<notin> set ''0123456789''"
  shows "convert_str_to_int str = Inr (- 1)"
proof -
  from assms have "\<exists>c \<in> set (takeWhile (\<lambda>c. c \<noteq> NUL) str). digit_add c = - 1"
    using nondigit_add by blast
  then show ?thesis
    unfolding convert_str_to_int_def by (rule convert_loop_nondigit)
qed

text \<open>
  C10. The round trip does not hold in the code. For \<open>i = 1234\<close> the buffer that
  \<open>convert_int_to_string\<close> returns is the four bytes that \<open>malloc(get_num_digits(i))\<close> gave,
  all taken by the digits, with no terminator; \<open>convert_str_to_int\<close> on it reads to the
  end of the digits with the total 1234 and then reads the byte after the buffer. What it
  returns is decided by the bytes that happen to follow: 12347 when they are \<open>7\<close> and a
  terminator, \<open>-1\<close> when the first is \<open>U\<close>.
\<close>

theorem convert_roundtrip_overread:
  "convert_int_to_string 1234 = ''1234'' \<and> get_num_digits 1234 = 4 \<and>
   convert_str_to_int (convert_int_to_string 1234) = Inl OutOfBounds \<and>
   convert_str_to_int (convert_int_to_string 1234 @ ''7'' @ [NUL]) = Inr 12347 \<and>
   convert_str_to_int (convert_int_to_string 1234 @ ''U'') = Inr (- 1)"
  by code_simp

section \<open>The stop condition of the loop\<close>

text \<open>
  C6. \<open>check_timer\<close> returns 1 exactly when a time limit is set (\<open>TARGET_TIME\<close> is not the
  sentinel \<open>-1\<close>) and the time since \<open>START_TIME\<close> has reached it, or \<open>KILL_STATE\<close> is 1, and
  returns 0 otherwise; without a time limit it returns 1 exactly when \<open>KILL_STATE\<close> is 1.
  The waiting loop evaluates it on the time it has just read, after a pending interrupt
  has set \<open>KILL_STATE\<close>, and ends the program in \<open>terminate_program\<close> exactly when it
  returns 1.
\<close>

theorem check_timer_stop:
  "(check_timer g current_time = 1 \<longleftrightarrow>
      (TARGET_TIME g \<noteq> - 1 \<and> current_time - START_TIME g \<ge> TARGET_TIME g) \<or> KILL_STATE g = 1) \<and>
   (check_timer g current_time \<noteq> 1 \<longleftrightarrow> check_timer g current_time = 0) \<and>
   (TARGET_TIME g = - 1 \<longrightarrow> (check_timer g current_time = 1 \<longleftrightarrow> KILL_STATE g = 1)) \<and>
   (now - t < 5 \<longrightarrow>
      ((\<exists>r. wait_loop (Suc 0) w g pids t now n = Some (Inl r)) \<longleftrightarrow>
       check_timer (if sigint_at w n then sig_handler g else g) (time_at w n) = 1))"
  by (auto simp: check_timer_def Let_def)

theorem check_timer_stop_witness:
  "check_timer \<lparr>TARGET_TIME = - 1, KILL_STATE = 1, START_TIME = 1000\<rparr> 1003 = 1 \<and>
   check_timer \<lparr>TARGET_TIME = - 1, KILL_STATE = - 1, START_TIME = 1000\<rparr> 1003 = 0 \<and>
   (\<exists>r. wait_loop (Suc 0) w6 \<lparr>TARGET_TIME = - 1, KILL_STATE = - 1, START_TIME = 1000\<rparr>
          [7, - 1] 1002 1003 5 = Some (Inl r))"
proof -
  let ?g = "\<lparr>TARGET_TIME = - 1, KILL_STATE = - 1, START_TIME = 1000\<rparr>"
  let ?k = "\<lparr>TARGET_TIME = - 1, KILL_STATE = 1, START_TIME = 1000\<rparr>"
  have "check_timer ?k 1003 = 1"
    using check_timer_stop
      [where g = ?k and current_time = 1003 and now = 1003 and t = 1002 and w = w6
        and pids = "[7, - 1]" and n = 5]
    by simp
  moreover have "check_timer ?g 1003 = 0 \<and>
      (\<exists>r. wait_loop (Suc 0) w6 ?g [7, - 1] 1002 1003 5 = Some (Inl r))"
    using check_timer_stop
      [where g = ?g and current_time = 1003 and now = 1003 and t = 1002 and w = w6
        and pids = "[7, - 1]" and n = 5]
    by (simp add: w6_def sig_handler_def check_timer_def)
  ultimately show ?thesis by simp
qed

section \<open>The termination handler\<close>

lemma upt_0_Suc_map: "[0..<Suc k] = 0 # map Suc [0..<k]"
  by (simp add: upt_conv_Cons map_Suc_upt del: upt_Suc)

lemma terminate_loop_events:
  "- 1 \<notin> set ps \<Longrightarrow>
   terminate_loop w n index (ps @ - 1 # rest) =
     Inr (concat (map (\<lambda>i. if wait_at w (n + i) (ps ! i) = 0
                            then [Terminated (index + i), Kill (ps ! i)]
                            else [Exited (index + i)]) [0..<length ps]))"
proof (induction ps arbitrary: n index)
  case Nil
  then show ?case by simp
next
  case (Cons p ps)
  then have p: "p \<noteq> - 1" and ps: "- 1 \<notin> set ps" by auto
  show ?case
    using p Cons.IH [OF ps, of "Suc n" "Suc index"]
    by (simp add: upt_0_Suc_map comp_def del: upt_Suc cong: if_cong)
qed

text \<open>
  C4. On an array that holds the pids \<open>ps\<close> and then the \<open>-1\<close> that ends it,
  \<open>terminate_program\<close> prints the banner, then for each pid in index order, after one
  \<open>waitpid(pid, NULL, WNOHANG)\<close>, either \<open>[index] Terminated\<close> followed by
  \<open>kill(pid, SIGKILL)\<close> when the call returned 0, or \<open>[index] Exited\<close>; then the total time,
  and the program ends with exit code 0: its value is the end of the run, there is nothing
  for a caller to go on with.
\<close>

theorem terminate_program_reports:
  assumes "- 1 \<notin> set ps"
  shows "terminate_program w n (ps @ - 1 # rest) elapsed_time =
     Exits ([Terminating]
            @ concat (map (\<lambda>i. if wait_at w (n + i) (ps ! i) = 0
                                then [Terminated i, Kill (ps ! i)] else [Exited i])
                        [0..<length ps])
            @ [Exiting elapsed_time]) 0"
  using terminate_loop_events [OF assms, of w n 0 rest]
  by (simp add: terminate_program_def cong: if_cong)

theorem terminate_program_reports_witness:
  "terminate_program w4 3 [7, 8, - 1] 12 =
     Exits [Terminating, Terminated 0, Kill 7, Exited 1, Exiting 12] 0"
  using terminate_program_reports [of "[7, 8]" w4 3 "[]" 12]
  by (simp add: w4_def upt_0_Suc_map del: upt_Suc)

section \<open>Reading the file\<close>

lemma create_process_parent:
  "fork_at w n \<noteq> - 1 \<Longrightarrow> fork_at w n \<noteq> 0 \<Longrightarrow> line \<noteq> [] \<Longrightarrow>
   create_process w n line (- 2) = Inr (launch_pid w n line)"
  by (simp add: create_process_def launch_pid_def Let_def)

lemma read_loop_step:
  assumes "line \<noteq> [] \<longrightarrow> fork_at w n \<noteq> - 1 \<and> fork_at w n \<noteq> 0"
    and "int (length pids) < len - 1"
  shows "\<exists>len'. int (length (pids @ filter (\<lambda>p. p \<ge> 0) [launch_pid w n line])) < len' - 1 \<and>
     read_loop w n line_number pids len (line # lines) =
       (case read_loop w (Suc n) (Suc line_number)
               (pids @ filter (\<lambda>p. p \<ge> 0) [launch_pid w n line]) len' lines of
          Inl r \<Rightarrow> Inl (prefix_run [launch_event w n line_number line] r)
        | Inr (evs, table, n') \<Rightarrow> Inr (launch_event w n line_number line # evs, table, n'))"
proof (cases "line = []")
  case True
  then show ?thesis
    using assms(2)
    by (intro exI [of _ len]) (simp add: launch_pid_def launch_event_def MAX_PROCESSES_def Let_def
        split: sum.splits prod.splits)
next
  case False
  with assms(1) have c: "create_process w n line (- 2) = Inr (launch_pid w n line)"
    by (simp add: create_process_parent)
  show ?thesis
  proof (cases "launch_pid w n line \<ge> 0")
    case True
    show ?thesis
      using False True assms(2) c
      by (intro exI [of _ "if int (length pids) + 1 \<ge> len - 1 then len + MAX_PROCESSES else len"])
        (simp add: launch_event_def MAX_PROCESSES_def Let_def split: sum.splits prod.splits)
  next
    case neg: False
    show ?thesis
      using False neg assms(2) c
      by (intro exI [of _ len])
        (simp add: launch_event_def MAX_PROCESSES_def Let_def split: sum.splits prod.splits)
  qed
qed


lemma read_loop_fork_fails:
  assumes "k < length lines" "lines ! k \<noteq> []" "fork_at w (n + k) = - 1"
    and "\<forall>j < k. lines ! j \<noteq> [] \<longrightarrow> fork_at w (n + j) \<noteq> - 1 \<and> fork_at w (n + j) \<noteq> 0"
    and "int (length pids) < len - 1"
  shows "read_loop w n line_number pids len lines =
     Inl (Exits (map (\<lambda>j. launch_event w (n + j) (line_number + j) (lines ! j)) [0..<k]) 1)"
  using assms
proof (induction lines arbitrary: k n line_number pids len)
  case Nil
  then show ?case by simp
next
  case (Cons line lines)
  show ?case
  proof (cases k)
    case 0
    then show ?thesis
      using Cons.prems by (simp add: create_process_def)
  next
    case (Suc k')
    have h0: "line \<noteq> [] \<longrightarrow> fork_at w n \<noteq> - 1 \<and> fork_at w n \<noteq> 0"
      using Cons.prems(4) Suc by force
    have hs: "\<forall>j < k'. lines ! j \<noteq> [] \<longrightarrow>
        fork_at w (Suc n + j) \<noteq> - 1 \<and> fork_at w (Suc n + j) \<noteq> 0"
      using Cons.prems(4) Suc by force
    from read_loop_step [OF h0 Cons.prems(5), of line_number lines]
    obtain len' where
      inv: "int (length (pids @ filter (\<lambda>p. p \<ge> 0) [launch_pid w n line])) < len' - 1"
      and step: "read_loop w n line_number pids len (line # lines) =
         (case read_loop w (Suc n) (Suc line_number)
                 (pids @ filter (\<lambda>p. p \<ge> 0) [launch_pid w n line]) len' lines of
            Inl r \<Rightarrow> Inl (prefix_run [launch_event w n line_number line] r)
          | Inr (evs, table, n') \<Rightarrow> Inr (launch_event w n line_number line # evs, table, n'))"
      by blast
    have "read_loop w (Suc n) (Suc line_number)
        (pids @ filter (\<lambda>p. p \<ge> 0) [launch_pid w n line]) len' lines =
        Inl (Exits (map (\<lambda>j. launch_event w (Suc n + j) (Suc line_number + j) (lines ! j)) [0..<k']) 1)"
      using Cons.prems(1-3) Suc by (intro Cons.IH [OF _ _ _ hs inv]) simp_all
    then show ?thesis
      unfolding step using Suc
      by (simp add: upt_0_Suc_map comp_def del: upt_Suc)
  qed
qed

section \<open>The lines read from the file\<close>

text \<open>
  As long as no child gives bytes back, the stream hands out the file from front to
  back: \<open>read_next_line\<close> returns its lines one after the other, and then the null pointer.
  A line is returned as it is when it has no \<open>NUL\<close> and fits the first buffer.
\<close>

lemma fread1_end:
  "to_read file st = [] \<Longrightarrow> fread1 w file st = None"
  by (simp add: fread1_def to_read_def)

lemma fread1_next:
  assumes "to_read file st = c # r"
  shows "\<exists>st'. fread1 w file st = Some (c, st') \<and> to_read file st' = r"
proof (cases "unread st")
  case (Cons c' rest)
  with assms show ?thesis
    by (simp add: fread1_def to_read_def)
next
  case Nil
  with assms have d: "drop (offset st) file = c # r"
    by (simp add: to_read_def)
  define m where "m = nat (max 1 (bufsiz w)) - 1"
  have "nat (max 1 (bufsiz w)) = Suc m"
    by (simp add: m_def)
  then have t: "read_bytes (max 1 (bufsiz w)) (c # r) = c # take m r"
    by (simp add: read_bytes_take)
  have "drop (offset st + Suc (length (take m r))) file = drop (Suc (length (take m r))) (c # r)"
    unfolding d [symmetric] by (simp add: add.commute)
  then have "take m r @ drop (offset st + Suc (length (take m r))) file = r"
    by (simp add: min_def)
  moreover have "fread1 w file st =
      Some (c, \<lparr>unread = take m r, offset = offset st + Suc (length (take m r))\<rparr>)"
    unfolding fread1_def Nil d t by simp
  ultimately show ?thesis
    by (simp add: to_read_def)
qed

lemma read_chars_line:
  assumes "scanner # to_read file st = l @ CHR 0x0A # after" "CHR 0x0A \<notin> set l"
  shows "\<exists>st'. read_chars w file scanner st line = (line @ l, st') \<and> to_read file st' = after"
  using assms
proof (induction l arbitrary: scanner st line)
  case Nil
  then show ?case
    by (subst read_chars.simps) simp
next
  case (Cons a l)
  then have a: "scanner = a" "a \<noteq> CHR 0x0A" and r: "to_read file st = l @ CHR 0x0A # after"
    by auto
  obtain c r' where cr: "to_read file st = c # r'" "c # r' = l @ CHR 0x0A # after"
    using r by (cases "to_read file st") auto
  from fread1_next [OF cr(1), of w] obtain st1 where
    f: "fread1 w file st = Some (c, st1)" and t: "to_read file st1 = r'"
    by blast
  have "c # to_read file st1 = l @ CHR 0x0A # after"
    using t cr(2) by simp
  from Cons.IH [OF this, of "line @ [a]"] Cons.prems(2)
  obtain st' where "read_chars w file c st1 (line @ [a]) = ((line @ [a]) @ l, st')"
    "to_read file st' = after"
    by auto
  then show ?case
    using a f by (subst read_chars.simps) simp
qed

lemma read_next_line_end:
  "to_read file st = [] \<Longrightarrow> read_next_line w file st = Inr (None, st)"
  by (simp add: read_next_line_def fread1_end)

lemma read_next_line_line:
  assumes "to_read file st = l @ CHR 0x0A # after" "CHR 0x0A \<notin> set l" "NUL \<notin> set l"
    and "int (length l) < PATH_MAX + MAX_ARG_LENGTH"
  shows "\<exists>st'. read_next_line w file st = Inr (Some l, st') \<and> to_read file st' = after"
proof -
  obtain c r where cr: "to_read file st = c # r" "c # r = l @ CHR 0x0A # after"
    using assms(1) by (cases "to_read file st") auto
  from fread1_next [OF cr(1), of w] obtain st1 where
    f: "fread1 w file st = Some (c, st1)" and t: "to_read file st1 = r"
    by blast
  have "c # to_read file st1 = l @ CHR 0x0A # after"
    using t cr(2) by simp
  from read_chars_line [OF this assms(2), of w "[]"] obtain st' where
    rc: "read_chars w file c st1 [] = (l, st')" and m: "to_read file st' = after"
    by auto
  have tw: "takeWhile (\<lambda>c. c \<noteq> NUL) l = l"
    using assms(3) by auto
  show ?thesis
    using f rc m tw assms(4) by (simp add: read_next_line_def)
qed

lemma after_child_stays:
  "\<not> gives_back w n line \<Longrightarrow> after_child w n line st = st"
  by (auto simp: after_child_def gives_back_def)

lemma read_loop_launch_step:
  "read_loop w n line_number pids len (line # lines) =
     (case launch_step w n line_number pids len line of
        Inl r \<Rightarrow> Inl r
      | Inr (ev, pids', len') \<Rightarrow>
          (case read_loop w (Suc n) (Suc line_number) pids' len' lines of
             Inl r \<Rightarrow> Inl (prefix_run [ev] r)
           | Inr (evs, table, n') \<Rightarrow> Inr (ev # evs, table, n')))"
  by (simp add: launch_step_def Let_def split: sum.splits)

lemma file_lines_Cons:
  "file_lines (line # lines) = line @ CHR 0x0A # file_lines lines"
  "file_lines [] = []"
  by (simp_all add: file_lines_def)

lemma stream_loop_lines:
  assumes "to_read file st = file_lines lines"
    and "\<forall>l \<in> set lines. CHR 0x0A \<notin> set l \<and> NUL \<notin> set l \<and> int (length l) < PATH_MAX + MAX_ARG_LENGTH"
    and "\<forall>k \<le> length lines. \<not> gives_back w (n + k) ((line # lines) ! k)"
    and "length lines + 2 \<le> fuel"
  shows "stream_loop fuel w file st n line_number pids len (Some line) =
     Some (read_loop w n line_number pids len (line # lines))"
  using assms
proof (induction lines arbitrary: fuel st n line_number pids len line)
  case Nil
  then obtain f where fuel: "fuel = Suc (Suc f)"
    by (cases fuel; cases "fuel - 1") auto
  have a: "after_child w n line st = st"
    using Nil.prems(3) by (simp add: after_child_stays)
  have e: "read_next_line w file st = Inr (None, st)"
    using Nil.prems(1) by (simp add: read_next_line_end file_lines_Cons)
  show ?case
    unfolding fuel read_loop_launch_step
    by (simp add: a e split: sum.splits prod.splits)
next
  case (Cons l lines)
  then obtain f where fuel: "fuel = Suc f" and f: "length lines + 2 \<le> f"
    by (cases fuel) auto
  have a: "after_child w n line st = st"
    using Cons.prems(3) by (auto simp: after_child_stays)
  have "to_read file st = l @ CHR 0x0A # file_lines lines"
    using Cons.prems(1) by (simp add: file_lines_Cons)
  from read_next_line_line [OF this, of w] Cons.prems(2) obtain st' where
    r: "read_next_line w file st = Inr (Some l, st')" and t: "to_read file st' = file_lines lines"
    by auto
  have g: "\<forall>k \<le> length lines. \<not> gives_back w (Suc n + k) ((l # lines) ! k)"
  proof (intro allI impI)
    fix k assume "k \<le> length lines"
    then show "\<not> gives_back w (Suc n + k) ((l # lines) ! k)"
      using Cons.prems(3) [rule_format, of "Suc k"] by simp
  qed
  have ih: "stream_loop f w file st' (Suc n) ln' pids' len' (Some l) =
      Some (read_loop w (Suc n) ln' pids' len' (l # lines))" for ln' pids' len'
    using Cons.IH [OF t _ g f] Cons.prems(2) by simp
  show ?case
    unfolding fuel read_loop_launch_step [of w n line_number pids len line]
    by (simp add: a r ih split: sum.splits prod.splits)
qed

text \<open>
  \<open>read_file\<close> on such a file, in a world where no child gives bytes back while the file
  is read, is \<open>read_file\<close> given the lines of the file.
\<close>

lemma read_file_stream_lines:
  assumes "\<forall>l \<in> set lines. CHR 0x0A \<notin> set l \<and> NUL \<notin> set l \<and> int (length l) < PATH_MAX + MAX_ARG_LENGTH"
    and "\<forall>k < length lines. \<forall>line. \<not> gives_back w k line"
    and "length lines + 2 \<le> fuel"
  shows "read_file_stream fuel w g (Some (file_lines lines)) = Some (read_file w g (Some lines))"
proof -
  let ?st = "\<lparr>unread = [], offset = 0\<rparr>"
  define contents where "contents = file_lines lines"
  obtain f where fuel: "fuel = Suc f"
    using assms(3) by (cases fuel) auto
  have e: "stream_loop fuel w contents st 0 0 [] MAX_PROCESSES None =
      Some (read_loop w 0 0 [] MAX_PROCESSES [])" for st
    by (simp add: fuel)
  have "read_file_stream fuel w g (Some contents) = Some (read_file w g (Some lines))"
  proof (cases lines)
    case Nil
    have "read_next_line w contents ?st = Inr (None, ?st)"
      by (simp add: read_next_line_end to_read_def contents_def Nil file_lines_Cons)
    then show ?thesis
      using e by (simp add: Nil read_file_stream_def read_file_def read_timer_def
          split: sum.splits prod.splits)
  next
    case (Cons l0 rest)
    have "to_read contents ?st = l0 @ CHR 0x0A # file_lines rest"
      by (simp add: to_read_def Cons file_lines_Cons contents_def)
    from read_next_line_line [OF this, of w] assms(1) obtain st1 where
      r1: "read_next_line w contents ?st = Inr (Some l0, st1)"
      and t1: "to_read contents st1 = file_lines rest"
      by (auto simp: Cons)
    have l1: "stream_loop fuel w contents st1 0 0 [] MAX_PROCESSES (Some l) =
        Some (read_loop w 0 0 [] MAX_PROCESSES (l # rest))" for l
      using assms by (intro stream_loop_lines [OF t1]) (auto simp: Cons)
    have l2: "\<exists>line st2. read_next_line w contents st1 = Inr (line, st2) \<and>
        stream_loop fuel w contents st2 0 0 [] MAX_PROCESSES line =
        Some (read_loop w 0 0 [] MAX_PROCESSES rest)"
    proof (cases rest)
      case Nil
      then have "read_next_line w contents st1 = Inr (None, st1)"
        using t1 by (simp add: read_next_line_end file_lines_Cons)
      then show ?thesis
        using e Nil by simp
    next
      case r: (Cons r0 rest')
      have "to_read contents st1 = r0 @ CHR 0x0A # file_lines rest'"
        using t1 by (simp add: r file_lines_Cons)
      from read_next_line_line [OF this, of w] assms(1) obtain st2 where
        r2: "read_next_line w contents st1 = Inr (Some r0, st2)"
        and t2: "to_read contents st2 = file_lines rest'"
        by (auto simp: Cons r)
      have "stream_loop fuel w contents st2 0 0 [] MAX_PROCESSES (Some r0) =
          Some (read_loop w 0 0 [] MAX_PROCESSES (r0 # rest'))"
        using assms by (intro stream_loop_lines [OF t2]) (auto simp: Cons r)
      then show ?thesis
        using r2 r by simp
    qed
    then obtain line2 st2 where
      r2: "read_next_line w contents st1 = Inr (line2, st2)"
      and s2: "stream_loop fuel w contents st2 0 0 [] MAX_PROCESSES line2 =
        Some (read_loop w 0 0 [] MAX_PROCESSES rest)"
      by blast
    show ?thesis
    proof (cases "read_timer (Some l0)")
      case (Inl f)
      then show ?thesis
        by (simp add: read_file_stream_def read_file_def r1 Cons)
    next
      case (Inr p)
      obtain timer line' where p: "p = (timer, line')"
        by (cases p)
      show ?thesis
      proof (cases "timer = - 1")
        case False
        then show ?thesis
          by (simp add: read_file_stream_def read_file_def r1 Cons Inr p r2 s2
              split: sum.splits prod.splits)
      next
        case True
        show ?thesis
        proof (cases line')
          case None
          then show ?thesis
            using e [of st1]
            by (simp add: read_file_stream_def read_file_def r1 Cons Inr p True
                split: sum.splits prod.splits)
        next
          case (Some l)
          then show ?thesis
            using l1 [of l]
            by (simp add: read_file_stream_def read_file_def r1 Cons Inr p True
                split: sum.splits prod.splits)
        qed
      qed
    qed
  qed
  then show ?thesis
    by (simp add: contents_def)
qed

text \<open>
  Whatever the lines read: the launch lines are numbered as they are printed, and the
  table is the pids of the launch lines that report a start, in that order.
\<close>

lemma started_pids_simps:
  "started_pids [] = []"
  "started_pids (Started i path pid # evs) = pid # started_pids evs"
  "started_pids (BadProgramEmpty i # evs) = started_pids evs"
  "started_pids (BadProgram i path # evs) = started_pids evs"
  by (simp_all add: started_pids_def)

lemma started_pids_append:
  "started_pids (xs @ ys) = started_pids xs @ started_pids ys"
  by (simp add: started_pids_def List.map_filter_def)

lemma started_pids_Cons:
  "started_pids (e # evs) = started_pids [e] @ started_pids evs"
  using started_pids_append [of "[e]" evs] by simp

lemma launch_step_result:
  assumes "launch_step w n line_number pids len line = Inr (ev, pids', len')"
  shows "shown_index ev = Some line_number \<and> launch_line ev \<and>
     pids' = pids @ started_pids [ev] \<and> (\<forall>p \<in> set (started_pids [ev]). 0 \<le> p)"
  using assms
  by (auto simp: launch_step_def Let_def started_pids_simps split: sum.splits if_splits)

lemma stream_loop_table:
  "stream_loop fuel w file st n line_number pids len line = Some (Inr (evs, table, n')) \<Longrightarrow>
   map shown_index evs = map Some [line_number..<line_number + length evs] \<and>
   list_all launch_line evs \<and>
   table = pids @ started_pids evs @ [- 1] \<and>
   (\<forall>p \<in> set (started_pids evs). 0 \<le> p) \<and>
   n' = n + length evs"
proof (induction fuel arbitrary: st n line_number pids len line evs table n')
  case 0
  then show ?case by simp
next
  case (Suc fuel)
  show ?case
  proof (cases line)
    case None
    with Suc.prems show ?thesis
      by (simp add: started_pids_simps split: if_splits)
  next
    case (Some l)
    with Suc.prems obtain ev pids' len' line' st' evs' where
      step: "launch_step w n line_number pids len l = Inr (ev, pids', len')"
      and rest: "stream_loop fuel w file st' (Suc n) (Suc line_number) pids' len' line' =
        Some (Inr (evs', table, n'))"
      and evs: "evs = ev # evs'"
      by (auto split: sum.splits prod.splits option.splits)
    note s = launch_step_result [OF step]
    note r = Suc.IH [OF rest]
    have u: "[line_number..<line_number + length evs] =
        line_number # [Suc line_number..<Suc line_number + length evs']"
      by (simp add: evs upt_rec)
    show ?thesis
      unfolding u using s r by (auto simp: evs started_pids_Cons [of ev evs'] simp del: upt_Suc)
  qed
qed

lemma started_position:
  assumes "k < length evs" "started_pid (evs ! k) = Some pid"
  shows "started_pids evs ! length (started_pids (take k evs)) = pid"
proof -
  have "evs = take k evs @ evs ! k # drop (Suc k) evs"
    using assms(1) by (simp add: id_take_nth_drop)
  then have "started_pids evs =
      started_pids (take k evs) @ started_pids [evs ! k] @ started_pids (drop (Suc k) evs)"
    by (metis started_pids_append started_pids_Cons)
  moreover have "started_pids [evs ! k] = [pid]"
    using assms(2) by (simp add: started_pids_def)
  ultimately show ?thesis
    by (simp add: nth_append)
qed

lemma started_count:
  "length (started_pids xs) \<le> length xs \<and>
   (length (started_pids xs) = length xs \<longleftrightarrow> (\<forall>x \<in> set xs. started_pid x \<noteq> None))"
proof (induction xs)
  case Nil
  then show ?case by (simp add: started_pids_def)
next
  case (Cons x xs)
  then show ?case
    by (cases "started_pid x") (auto simp: started_pids_def)
qed

lemma started_before:
  assumes "k \<le> length evs"
  shows "length (started_pids (take k evs)) = k \<longleftrightarrow> (\<forall>j < k. started_pid (evs ! j) \<noteq> None)"
proof -
  have "(\<forall>x \<in> set (take k evs). started_pid x \<noteq> None) \<longleftrightarrow>
      (\<forall>j < k. started_pid (evs ! j) \<noteq> None)"
    using assms by (simp add: all_set_conv_all_nth min_absorb2)
  then show ?thesis
    using started_count [of "take k evs"] assms by (simp add: min_absorb2)
qed

lemma read_file_stream_table:
  assumes "read_file_stream fuel w g file = Some (Inr (StartingReport # evs, g', Some table, n))"
  shows "map shown_index evs = map Some [0..<length evs] \<and> list_all launch_line evs \<and>
     table = started_pids evs @ [- 1] \<and> (\<forall>p \<in> set (started_pids evs). 0 \<le> p) \<and>
     n = length evs"
proof -
  from assms obtain contents st line where
    "stream_loop fuel w contents st 0 0 [] MAX_PROCESSES line = Some (Inr (evs, table, n))"
    by (auto simp: read_file_stream_def split: option.splits sum.splits prod.splits if_splits)
  from stream_loop_table [OF this] show ?thesis
    by simp
qed
section \<open>The CPU percentage\<close>

lemma w1_cpu8: "get_cpu_usage w1 0 8 = Inr 150"
  by code_simp

lemma w1_cpu9: "get_cpu_usage w1 1 9 = Inr 1600"
  by code_simp
lemma w1_mem: "get_mem_usage w1 0 8 = Inr 5" "get_mem_usage w1 1 9 = Inr 5"
  by code_simp+

lemma cpu_percent_exact:
  assumes "0 < clk" "5 * clk < 2147483648" "\<bar>(cpu - counter) * 100\<bar> < 2147483648"
  shows "cpu_percent cpu counter (int32 (5 * clk)) = (cpu - counter) * 100 sdiv (5 * clk)"
proof -
  have f: "int32 (5 * clk) = 5 * clk"
    using assms by (intro int32_id) simp_all
  have d: "int32 (cpu - counter) = cpu - counter"
    using assms by (intro int32_id) (simp_all add: abs_less_iff)
  have m: "int32 ((cpu - counter) * 100) = (cpu - counter) * 100"
    using assms by (intro int32_id) (simp_all add: abs_less_iff)
  have "(cpu - counter) * 100 sdiv (5 * clk) \<in> {- \<bar>(cpu - counter) * 100\<bar>..\<bar>(cpu - counter) * 100\<bar>}"
    by (rule sdiv_int_range)
  then have q: "int32 ((cpu - counter) * 100 sdiv (5 * clk)) = (cpu - counter) * 100 sdiv (5 * clk)"
    using assms(3) by (intro int32_id) auto
  show ?thesis
    by (simp only: cpu_percent_def f d m q)
qed

text \<open>
  C1. For a process that \<open>waitpid\<close> reports alive, whose samplers return \<open>cpu\<close> ticks and
  \<open>mem\<close> megabytes, the pass prints the percentage
  \<open>(cpu - counter) * 100 / (5 * clk_tck)\<close>, where \<open>counter\<close> is the stored value of the
  previous pass and the division is C's integer division (the same as \<open>div\<close> when the ticks
  have not decreased), stores \<open>cpu\<close> in place of \<open>counter\<close>, and goes on with the next
  process. Nothing bounds the percentage. The clock rate is positive and the products fit
  an \<open>int\<close>.
\<close>

theorem report_loop_cpu_percent:
  assumes "pid \<noteq> - 1" "wait_at w n pid = 0"
    and "get_cpu_usage w n pid = Inr cpu" "get_mem_usage w n pid = Inr mem"
    and "0 < clk_tck w" "5 * clk_tck w < 2147483648"
    and "\<bar>(cpu - counter) * 100\<bar> < 2147483648"
  shows "report_loop w (full_cpu_increase w) n index (pid # pids) (counter # counters) done =
     (case report_loop w (full_cpu_increase w) (Suc n) (Suc index) pids counters 0 of
        Inl f \<Rightarrow> Inl f
      | Inr (evs, cs, done', n') \<Rightarrow>
          Inr (Running index ((cpu - counter) * 100 sdiv (5 * clk_tck w)) mem # evs,
               cpu # cs, done', n'))
     \<and> (counter \<le> cpu \<longrightarrow>
          (cpu - counter) * 100 sdiv (5 * clk_tck w) = (cpu - counter) * 100 div (5 * clk_tck w))"
proof
  have nz: "full_cpu_increase w \<noteq> 0"
    using assms(5,6) by (simp add: full_cpu_increase_def int32_id)
  have pc: "cpu_percent cpu counter (full_cpu_increase w) = (cpu - counter) * 100 sdiv (5 * clk_tck w)"
    unfolding full_cpu_increase_def using assms(5-7) by (rule cpu_percent_exact)
  show "report_loop w (full_cpu_increase w) n index (pid # pids) (counter # counters) done =
     (case report_loop w (full_cpu_increase w) (Suc n) (Suc index) pids counters 0 of
        Inl f \<Rightarrow> Inl f
      | Inr (evs, cs, done', n') \<Rightarrow>
          Inr (Running index ((cpu - counter) * 100 sdiv (5 * clk_tck w)) mem # evs,
               cpu # cs, done', n'))"
    unfolding pc [symmetric] using assms(1-4) nz by simp
next
  show "counter \<le> cpu \<longrightarrow>
          (cpu - counter) * 100 sdiv (5 * clk_tck w) = (cpu - counter) * 100 div (5 * clk_tck w)"
    using assms(5) by (simp add: signed_divide_int_def sgn_if)
qed

theorem report_loop_cpu_percent_witness:
  "report_loop w1 (full_cpu_increase w1) 0 0 [8, 9, - 1] [100, 100] 1 =
     Inr ([Running 0 10 5, Running 1 300 5], [150, 1600], 0, 2)"
proof -
  have a: "report_loop w1 (full_cpu_increase w1) 1 1 [9, - 1] [100] 0 =
      Inr ([Running 1 300 5], [1600], 0, 2)"
    using report_loop_cpu_percent [of 9 w1 1 1600 5 100 1 "[- 1]" "[]" 0] w1_cpu9 w1_mem
    by (simp add: w1_def)
  show ?thesis
    using report_loop_cpu_percent [of 8 w1 0 150 5 100 0 "[9, - 1]" "[100]" 1] w1_cpu8 w1_mem a
    by (simp add: w1_def)
qed

section \<open>The memory sampler\<close>

lemma get_next_segment_split:
  "get_next_segment fptr = (segment, fptr') \<Longrightarrow>
   split_spaces fptr = (if CHR '' '' \<in> set fptr then segment # split_spaces fptr' else [segment])
   \<and> (CHR '' '' \<notin> set fptr \<longrightarrow> fptr' = [])"
  by (induction fptr arbitrary: segment fptr') (auto split: if_splits prod.splits list.splits)

lemma strlen_Nil [simp]: "strlen [] = 0"
  by (simp add: strlen_def)

lemma get_next_segment_takeWhile:
  assumes "get_next_segment fptr = (segment, fptr')" "\<not> P []"
  shows "takeWhile P (split_spaces fptr) = takeWhile P (segment # split_spaces fptr')"
  using get_next_segment_split [OF assms(1)] assms(2) by (auto split: if_splits)

lemma sum_segments_foldl:
  "sum_segments fptr sumv =
     foldl (\<lambda>a segment. int32 (a + atoi segment)) sumv
       (takeWhile (\<lambda>s. strlen s \<noteq> 0) (split_spaces fptr))"
proof (induction fptr sumv rule: sum_segments.induct)
  case (1 fptr sumv)
  obtain segment fptr' where g: "get_next_segment fptr = (segment, fptr')"
    by (cases "get_next_segment fptr")
  show ?case
  proof (cases "strlen segment \<noteq> 0")
    case True
    have "sum_segments fptr sumv = sum_segments fptr' (int32 (sumv + atoi segment))"
      using g True by (subst sum_segments.simps) simp
    also have "\<dots> = foldl (\<lambda>a segment. int32 (a + atoi segment)) (int32 (sumv + atoi segment))
       (takeWhile (\<lambda>s. strlen s \<noteq> 0) (split_spaces fptr'))"
      using "1.IH" [OF g [symmetric] True] .
    finally show ?thesis
      using True by (simp add: get_next_segment_takeWhile [OF g, of "\<lambda>s. 0 < strlen s"])
  next
    case False
    have "sum_segments fptr sumv = sumv"
      using g False by (subst sum_segments.simps) simp
    then show ?thesis
      using False by (simp add: get_next_segment_takeWhile [OF g, of "\<lambda>s. 0 < strlen s"])
  qed
qed

lemma foldl_int32_sum:
  "0 \<le> s \<Longrightarrow> \<forall>v \<in> set vs. 0 \<le> v \<Longrightarrow> s + sum_list vs < 2147483648 \<Longrightarrow>
   foldl (\<lambda>a v. int32 (a + v)) s vs = s + sum_list vs"
proof (induction vs arbitrary: s)
  case Nil
  then show ?case by simp
next
  case (Cons v vs)
  have nn: "0 \<le> sum_list vs" using Cons.prems(2) by (simp add: sum_list_nonneg)
  have "int32 (s + v) = s + v"
    using Cons.prems nn by (intro int32_id) simp_all
  then show ?case
    using Cons.IH [of "s + v"] Cons.prems by (simp add: add.assoc)
qed

text \<open>
  C9. When the file \<open>/proc/<pid>/statm\<close> can be opened, \<open>get_mem_usage\<close> returns the sum of
  the numbers in its space-separated fields, divided by 1024 with integer division. The
  numbers are page counts: none is negative, and their sum fits an \<open>int\<close>. This is so for
  every \<open>pid > 0\<close>, as the pids that \<open>fork\<close> returns to the parent are; for the other
  values the sampler does not get as far as opening a file.
\<close>

theorem get_mem_usage_sum:
  assumes "proc_at w n (proc_path ''/proc/'' pid ''/statm'') = Some fptr"
    and "\<forall>v \<in> set (statm_values fptr). 0 \<le> v"
    and "sum_list (statm_values fptr) < 2147483648"
  shows "get_mem_usage w n pid =
     (if pid < 0 then Inl Uninitialised
      else if pid = 0 then Inl InvalidFree
      else Inr (sum_list (statm_values fptr) div 1024))"
proof -
  have "sum_segments fptr 0 = foldl (\<lambda>a v. int32 (a + v)) 0 (statm_values fptr)"
    by (simp add: sum_segments_foldl statm_values_def foldl_map)
  also have "\<dots> = sum_list (statm_values fptr)"
    using foldl_int32_sum [of 0 "statm_values fptr"] assms(2,3) by simp
  finally have s: "sum_segments fptr 0 = sum_list (statm_values fptr)" .
  have "0 \<le> sum_list (statm_values fptr)"
    using assms(2) by (simp add: sum_list_nonneg)
  then have "sum_list (statm_values fptr) sdiv 1024 = sum_list (statm_values fptr) div 1024"
    by (simp add: signed_divide_int_def sgn_if)
  then show ?thesis
    using assms(1) s by (simp add: get_mem_usage_def free_str_pid_def)
qed

lemma w1_values: "statm_values (''1000 2000 3000 0 0 0 0'' @ [CHR 0x0A]) = [1000, 2000, 3000, 0, 0, 0, 0]"
  by code_simp

theorem get_mem_usage_sum_witness:
  "get_mem_usage w1 0 8 = Inr 5"
proof -
  have p: "proc_at w1 0 (proc_path ''/proc/'' 8 ''/statm'') = Some (''1000 2000 3000 0 0 0 0'' @ [CHR 0x0A])"
    by code_simp
  show ?thesis
    using get_mem_usage_sum [OF p] by (simp only: w1_values) simp
qed

section \<open>A statistics file that cannot be opened\<close>

text \<open>
  The branch of the samplers for a file that cannot be opened does not reach its
  \<open>return -1\<close> with a C library that reads through the stream it is given, as the GNU C
  library does: \<open>fclose(fptr)\<close> comes first, with \<open>fptr == NULL\<close>.
\<close>

lemma sampler_null_stream:
  assumes "\<not> fclose_null_returns w" "0 < pid"
  shows "proc_at w n (proc_path ''/proc/'' pid ''/stat'') = None \<Longrightarrow>
      get_cpu_usage w n pid = Inl NullStream"
    and "proc_at w n (proc_path ''/proc/'' pid ''/statm'') = None \<Longrightarrow>
      get_mem_usage w n pid = Inl NullStream"
  using assms by (simp_all add: get_cpu_usage_def get_mem_usage_def free_str_pid_def)

text \<open>
  With a library whose \<open>fclose\<close> returns on a null stream the samplers do return \<open>-1\<close>.
  The pass does not look at it: it decides between \<open>Running\<close> and \<open>Exited\<close> by \<open>waitpid\<close>
  alone, and prints a \<open>Running\<close> line with the percentage computed from \<open>-1\<close> and the
  memory \<open>-1\<close> for a process that \<open>waitpid\<close> reports alive.
\<close>

lemma sampler_sentinel_ignored:
  assumes "fclose_null_returns w" "0 < pid"
    and "proc_at w n (proc_path ''/proc/'' pid ''/stat'') = None"
    and "proc_at w n (proc_path ''/proc/'' pid ''/statm'') = None"
    and "wait_at w n pid = 0" "full \<noteq> 0"
  shows "get_cpu_usage w n pid = Inr (- 1) \<and> get_mem_usage w n pid = Inr (- 1) \<and>
     report_loop w full n index (pid # pids) (counter # counters) done =
       (case report_loop w full (Suc n) (Suc index) pids counters 0 of
          Inl f \<Rightarrow> Inl f
        | Inr (evs, cs, done', n') \<Rightarrow>
            Inr (Running index (cpu_percent (- 1) counter full) (- 1) # evs,
                 - 1 # cs, done', n'))"
proof -
  have c: "get_cpu_usage w n pid = Inr (- 1)"
    using assms(1-3) by (simp add: get_cpu_usage_def free_str_pid_def)
  have m: "get_mem_usage w n pid = Inr (- 1)"
    using assms(1,2,4) by (simp add: get_mem_usage_def free_str_pid_def)
  show ?thesis
    using assms(2,5,6) by (simp add: c m split: sum.splits prod.splits)
qed

text \<open>
  C5. The samplers do not return the sentinel when the statistics path does not exist,
  and the failure is fatal. In the world \<open>w5g\<close> the process 7 is a child that \<open>waitpid\<close>
  reports alive and no file \<open>/proc/7/stat\<close> or \<open>/proc/7/statm\<close> exists: \<open>fopen\<close> returns
  \<open>NULL\<close>, both samplers call \<open>fclose(NULL)\<close> before their \<open>return -1\<close>, and the program is
  killed there, in \<open>initialize_cpu_counters\<close> already, and in the pass if it came to it.
  No line is printed for the process and the loop does not go on to the other children.
\<close>

theorem sampler_not_found_faults:
  "proc_at w5g 0 (proc_path ''/proc/'' 7 ''/stat'') = None \<and>
   proc_at w5g 0 (proc_path ''/proc/'' 7 ''/statm'') = None \<and>
   wait_at w5g 0 7 = 0 \<and>
   get_cpu_usage w5g 0 7 = Inl NullStream \<and>
   get_mem_usage w5g 0 7 = Inl NullStream \<and>
   initialize_cpu_counters w5g 0 [7, 8, - 1] 2 = Inl NullStream \<and>
   report_loop w5g 500 0 0 [7, 8, - 1] [0, 0] 1 = Inl NullStream \<and>
   periodic_reports 5 w5g initial_globals [7, 8, - 1] 0 = Some (Faults NullStream)"
  by code_simp

section \<open>Launch failures\<close>

text \<open>
  What is right in the description of the failures: an empty line is not launched and is
  reported without a path; a child that the parent finds exited, 100 ms after \<open>fork\<close>, is
  reported as failed and takes no slot; a failing \<open>fork\<close> ends the program with exit
  code 1; in the child an \<open>execvp\<close> that returns leads to \<open>exit(errno)\<close>, when the argument
  array happens to be ended by a null pointer.
\<close>

lemma empty_line_not_launched:
  "launch_step w n line_number pids len [] =
     (if int (length pids) \<ge> len - 1
      then Inr (BadProgramEmpty line_number, pids, len + MAX_PROCESSES)
      else Inr (BadProgramEmpty line_number, pids, len))"
  by (simp add: launch_step_def)

lemma fork_failure_fatal:
  "line \<noteq> [] \<Longrightarrow> fork_at w n = - 1 \<Longrightarrow>
   launch_step w n line_number pids len line = Inl (Exits [] 1)"
  by (simp add: launch_step_def create_process_def)

lemma child_exec_failure:
  "line \<noteq> [] \<Longrightarrow> fork_at w n = 0 \<Longrightarrow> get_args line = file # args \<Longrightarrow>
   args_after w (file # args) = Some [] \<Longrightarrow> execvp_errno w file (file # args) = Some errno \<Longrightarrow>
   launch_step w n line_number pids len line = Inl (Exits [] errno)"
  by (simp add: launch_step_def create_process_def child_branch_def)

lemma exited_child_reported_failed:
  "line \<noteq> [] \<Longrightarrow> fork_at w n \<noteq> - 1 \<Longrightarrow> fork_at w n \<noteq> 0 \<Longrightarrow>
   wait_at w n (fork_at w n) \<noteq> 0 \<Longrightarrow> int (length pids) < len - 1 \<Longrightarrow>
   launch_step w n line_number pids len line =
     Inr (BadProgram line_number (map_option fst (strtok line)), pids, len)"
  by (simp add: launch_step_def create_process_def Let_def)

text \<open>
  C7. A failed \<open>execvp\<close> is not isolated. The file has the three lines \<open>\<close> (empty),
  \<open>nosuch\<close> and \<open>sleep 5\<close>; in the world \<open>w7\<close> the \<open>execvp\<close> of \<open>nosuch\<close> fails with \<open>ENOENT\<close>
  and the children get the pids 100, 101, ... The parent has read the whole file into
  the buffer of its stream when it forks the child for \<open>nosuch\<close>, with the last line not
  handed out yet. The child (\<open>w7c\<close>) leaves with \<open>exit(errno)\<close>, and \<open>exit\<close> moves the offset
  of the file, which it shares with the parent, back by that line. The parent launches
  \<open>sleep 5\<close> from its buffer and then reads the line from the file once more: four launch
  lines are printed for the three lines of the file, and \<open>sleep 5\<close> runs twice, as the
  processes 102 and 103 of the table. On a file of three lines \<open>nosuch\<close>, in \<open>w7x\<close>, the
  loop has not ended after 7 launches. A \<open>fork\<close> that fails (\<open>w7f\<close>) does end the whole
  program, with exit code 1.
\<close>

theorem failed_exec_not_isolated:
  "read_file_stream 10 w7 initial_globals (Some (file_lines ['''', ''nosuch'', ''sleep 5''])) =
     Some (Inr ([StartingReport, BadProgramEmpty 0, BadProgram 1 (Some ''nosuch''),
                 Started 2 (Some ''sleep'') 102, Started 3 (Some ''sleep'') 103],
                initial_globals, Some [102, 103, - 1], 4)) \<and>
   child_branch w7 ''nosuch'' = Exits [] 2 \<and>
   create_process w7c 1 ''nosuch'' (- 2) = Inl (Exits [] 2) \<and>
   read_file_stream 10 w7c initial_globals (Some (file_lines ['''', ''nosuch'', ''sleep 5''])) =
     Some (Inl (Exits [StartingReport, BadProgramEmpty 0] 2)) \<and>
   read_file_stream 7 w7x initial_globals (Some (file_lines [''nosuch'', ''nosuch'', ''nosuch''])) =
     None \<and>
   read_file_stream 10 w7f initial_globals (Some (file_lines ['''', ''nosuch'', ''sleep 5''])) =
     Some (Inl (Exits [StartingReport, BadProgramEmpty 0, BadProgram 1 (Some ''nosuch'')] 1))"
proof -
  have parent:
    "read_file_stream 10 w7 initial_globals (Some (file_lines ['''', ''nosuch'', ''sleep 5''])) =
       Some (Inr ([StartingReport, BadProgramEmpty 0, BadProgram 1 (Some ''nosuch''),
                   Started 2 (Some ''sleep'') 102, Started 3 (Some ''sleep'') 103],
                  initial_globals, Some [102, 103, - 1], 4))"
    by code_simp
  have child: "child_branch w7 ''nosuch'' = Exits [] 2"
    "create_process w7c 1 ''nosuch'' (- 2) = Inl (Exits [] 2)"
    by code_simp+
  have child_run:
    "read_file_stream 10 w7c initial_globals (Some (file_lines ['''', ''nosuch'', ''sleep 5''])) =
       Some (Inl (Exits [StartingReport, BadProgramEmpty 0] 2))"
    by code_simp
  have endless:
    "read_file_stream 7 w7x initial_globals (Some (file_lines [''nosuch'', ''nosuch'', ''nosuch''])) =
       None"
    by code_simp
  have no_fork:
    "read_file_stream 10 w7f initial_globals (Some (file_lines ['''', ''nosuch'', ''sleep 5''])) =
       Some (Inl (Exits [StartingReport, BadProgramEmpty 0, BadProgram 1 (Some ''nosuch'')] 1))"
    by code_simp
  show ?thesis
    by (intro conjI parent child child_run endless no_fork)
qed

section \<open>A file of valid command lines\<close>







section \<open>The indices shown\<close>

text \<open>
  C2 as the specification states it: a failed launch keeps its index, and a process is
  shown in the periodic reports and at termination with the index of its launch line. The
  file has the lines \<open>true\<close> and \<open>sleep 5\<close>. In the world \<open>w2\<close> every \<open>execvp\<close> of a program
  that exists succeeds; the child of line 0 has run \<open>true\<close> and exited when the parent
  looks, and the child of line 1 runs; an interrupt arrives during the first wait. The
  process launched as \<open>[1]\<close> is reported as \<open>[0] Running\<close> and then as \<open>[0] Terminated\<close>.
\<close>

theorem launch_index_not_report_index:
  "main 10 w2 (Some (file_lines [''true'', ''sleep 5''])) =
     Some (Exits [StartingReport, BadProgram 0 (Some ''true''), Started 1 (Some ''sleep'') 101,
                  Dots, NormalReport, Running 0 0 5, Dots,
                  SignalReceived, Terminating, Terminated 0, Kill 101, Exiting 4] 0)"
  by code_simp


lemma report_loop_lines:
  "- 1 \<notin> set ps \<Longrightarrow>
   report_loop w full n index (ps @ - 1 # rest) counters done = Inr (evs, cs, d, n') \<Longrightarrow>
   length evs = length ps \<and>
   (\<forall>i < length ps.
      if wait_at w (n + i) (ps ! i) = 0 then (\<exists>cpu mem. evs ! i = Running (index + i) cpu mem)
      else evs ! i = Exited (index + i))"
proof (induction ps arbitrary: n index counters "done" evs cs d n')
  case Nil
  then show ?case by simp
next
  case (Cons p ps)
  then have p: "p \<noteq> - 1" and ps: "- 1 \<notin> set ps" by auto
  show ?case
  proof (cases "wait_at w n p = 0")
    case True
    with Cons.prems(2) p obtain evs' cs' cpu mem and counters' :: "int list" where
      r: "report_loop w full (Suc n) (Suc index) (ps @ - 1 # rest) counters' 0 = Inr (evs', cs', d, n')"
      and e: "evs = Running index cpu mem # evs'"
      by (auto split: sum.splits list.splits if_splits prod.splits)
    from Cons.IH [OF ps r] e True show ?thesis
      by (auto simp: nth_Cons split: nat.splits)
  next
    case False
    with Cons.prems(2) p obtain evs' cs' where
      r: "report_loop w full (Suc n) (Suc index) (ps @ - 1 # rest) (tl counters) done = Inr (evs', cs', d, n')"
      and e: "evs = Exited index # evs'"
      by (auto split: sum.splits list.splits if_splits prod.splits)
    from Cons.IH [OF ps r] e False show ?thesis
      by (auto simp: nth_Cons split: nat.splits)
  qed
qed


text \<open>
  C2, amended. The launch lines are numbered 0, 1, 2, ... as they are printed, one for
  every line read, whatever the outcome of the launch. A launch that fails takes no slot:
  the table holds the pids of the launches reported as started, in that order, so that
  the pid of the launch printed as \<open>k\<close> stands at the position that counts the started
  launches before \<open>k\<close>; the position is \<open>k\<close> exactly when no earlier launch failed. Every
  pass of the periodic reports and \<open>terminate_program\<close> show a process with its position
  in the table, which never changes after \<open>read_file\<close>.
\<close>

theorem table_index:
  assumes "read_file_stream fuel w g file = Some (Inr (StartingReport # evs, g', Some table, n))"
  shows
    "list_all launch_line evs \<and>
     map shown_index evs = map Some [0..<length evs] \<and>
     table = started_pids evs @ [- 1] \<and>
     (\<forall>k < length evs. \<forall>pid. started_pid (evs ! k) = Some pid \<longrightarrow>
        table ! length (started_pids (take k evs)) = pid \<and>
        (length (started_pids (take k evs)) = k \<longleftrightarrow>
           (\<forall>j < k. started_pid (evs ! j) \<noteq> None))) \<and>
     (\<forall>full m counters done revs cs d m'.
        report_loop w full m 0 table counters done = Inr (revs, cs, d, m') \<longrightarrow>
        length revs = length (started_pids evs) \<and>
        (\<forall>i < length (started_pids evs).
           if wait_at w (m + i) (table ! i) = 0
           then (\<exists>cpu mem. revs ! i = Running i cpu mem)
           else revs ! i = Exited i)) \<and>
     (\<forall>m. terminate_loop w m 0 table =
        Inr (concat (map (\<lambda>i. if wait_at w (m + i) (table ! i) = 0
                               then [Terminated i, Kill (table ! i)]
                               else [Exited i])
                       [0..<length (started_pids evs)])))"
proof -
  let ?ps = "started_pids evs"
  note r = read_file_stream_table [OF assms]
  have tb: "table = ?ps @ [- 1]"
    using r by simp
  have t: "- 1 \<notin> set ?ps"
    using r by fastforce
  have nth: "i < length ?ps \<Longrightarrow> table ! i = ?ps ! i" for i
    by (simp add: tb nth_append)
  have 1: "list_all launch_line evs" and 2: "map shown_index evs = map Some [0..<length evs]"
    using r by simp_all
  have 3: "\<forall>k < length evs. \<forall>pid. started_pid (evs ! k) = Some pid \<longrightarrow>
        table ! length (started_pids (take k evs)) = pid \<and>
        (length (started_pids (take k evs)) = k \<longleftrightarrow>
           (\<forall>j < k. started_pid (evs ! j) \<noteq> None))"
  proof (intro allI impI)
    fix k pid
    assume k: "k < length evs" and s: "started_pid (evs ! k) = Some pid"
    have "evs = take k evs @ evs ! k # drop (Suc k) evs"
      using k by (simp add: id_take_nth_drop)
    then have "?ps = started_pids (take k evs) @ started_pids (evs ! k # drop (Suc k) evs)"
      by (metis started_pids_append)
    moreover have "started_pids (evs ! k # drop (Suc k) evs) \<noteq> []"
      using s by (cases "evs ! k") (simp_all add: started_pids_simps)
    ultimately have "length (started_pids (take k evs)) < length ?ps"
      by (metis length_append length_greater_0_conv less_add_same_cancel1)
    then have "table ! length (started_pids (take k evs)) = pid"
      using started_position [OF k s] by (simp add: nth)
    moreover have "length (started_pids (take k evs)) = k \<longleftrightarrow>
        (\<forall>j < k. started_pid (evs ! j) \<noteq> None)"
      using k by (intro started_before) simp
    ultimately show "table ! length (started_pids (take k evs)) = pid \<and>
        (length (started_pids (take k evs)) = k \<longleftrightarrow>
           (\<forall>j < k. started_pid (evs ! j) \<noteq> None))"
      by blast
  qed
  have 4: "\<forall>full m counters done revs cs d m'.
        report_loop w full m 0 table counters done = Inr (revs, cs, d, m') \<longrightarrow>
        length revs = length ?ps \<and>
        (\<forall>i < length ?ps.
           if wait_at w (m + i) (table ! i) = 0
           then (\<exists>cpu mem. revs ! i = Running i cpu mem)
           else revs ! i = Exited i)"
  proof (intro allI impI)
    fix full m counters "done" revs cs d m'
    assume "report_loop w full m 0 table counters done = Inr (revs, cs, d, m')"
    then have "report_loop w full m 0 (?ps @ - 1 # []) counters done = Inr (revs, cs, d, m')"
      by (simp add: tb)
    from report_loop_lines [OF t this]
    show "length revs = length ?ps \<and>
        (\<forall>i < length ?ps.
           if wait_at w (m + i) (table ! i) = 0
           then (\<exists>cpu mem. revs ! i = Running i cpu mem)
           else revs ! i = Exited i)"
      by (simp add: nth cong: if_cong)
  qed
  have 5: "\<forall>m. terminate_loop w m 0 table =
        Inr (concat (map (\<lambda>i. if wait_at w (m + i) (table ! i) = 0
                               then [Terminated i, Kill (table ! i)]
                               else [Exited i])
                       [0..<length ?ps]))"
  proof
    fix m
    have mp: "map (\<lambda>i. if wait_at w (m + i) (table ! i) = 0
                               then [Terminated i, Kill (table ! i)]
                               else [Exited i]) [0..<length ?ps] =
        map (\<lambda>i. if wait_at w (m + i) (?ps ! i) = 0
                               then [Terminated i, Kill (?ps ! i)]
                               else [Exited i]) [0..<length ?ps]"
      by (intro map_cong refl) (simp add: nth)
    show "terminate_loop w m 0 table =
        Inr (concat (map (\<lambda>i. if wait_at w (m + i) (table ! i) = 0
                               then [Terminated i, Kill (table ! i)]
                               else [Exited i])
                       [0..<length ?ps]))"
      unfolding mp
      using terminate_loop_events [OF t, where index = 0 and rest = "[]" and w = w and n = m]
      by (simp add: tb cong: if_cong)
  qed
  from 1 2 tb 3 4 5 show ?thesis by blast
qed

theorem table_index_witness:
  "read_file_stream 10 w7 initial_globals (Some (file_lines ['''', ''nosuch'', ''sleep 5''])) =
     Some (Inr ([StartingReport, BadProgramEmpty 0, BadProgram 1 (Some ''nosuch''),
                 Started 2 (Some ''sleep'') 102, Started 3 (Some ''sleep'') 103],
                initial_globals, Some [102, 103, - 1], 4)) \<and>
   started_pids [BadProgramEmpty 0, BadProgram 1 (Some ''nosuch''),
                 Started 2 (Some ''sleep'') 102, Started 3 (Some ''sleep'') 103] = [102, 103] \<and>
   [102, 103, - 1] ! 0 = (102 :: int) \<and> [102, 103, - 1] ! 1 = (103 :: int) \<and>
   terminate_loop w7 7 0 [102, 103, - 1] =
     Inr [Terminated 0, Kill 102, Terminated 1, Kill 103]"
proof -
  let ?evs = "[BadProgramEmpty 0, BadProgram 1 (Some ''nosuch''),
               Started 2 (Some ''sleep'') 102, Started 3 (Some ''sleep'') 103]"
  have e: "read_file_stream 10 w7 initial_globals (Some (file_lines ['''', ''nosuch'', ''sleep 5''])) =
      Some (Inr (StartingReport # ?evs, initial_globals, Some [102, 103, - 1], 4))"
    by code_simp
  note T = table_index [OF e]
  have sp: "started_pids ?evs = [102, 103]"
    "length (started_pids (take 2 ?evs)) = 0" "length (started_pids (take 3 ?evs)) = 1"
    by (simp_all add: started_pids_simps)
  have tm: "concat (map (\<lambda>i. if wait_at w7 (7 + i) ([102, 103, - 1] ! i) = 0
                               then [Terminated i, Kill ([102, 103, - 1] ! i)]
                               else [Exited i]) [0..<length [102, 103 :: int]]) =
      [Terminated 0, Kill 102, Terminated 1, Kill 103]"
    by code_simp
  have 3: "[102, 103, - 1] ! 0 = (102 :: int)"
    using T [THEN conjunct2, THEN conjunct2, THEN conjunct2, THEN conjunct1, rule_format, of 2 102]
    unfolding sp by simp
  have 4: "[102, 103, - 1] ! 1 = (103 :: int)"
    using T [THEN conjunct2, THEN conjunct2, THEN conjunct2, THEN conjunct1, rule_format, of 3 103]
    unfolding sp by simp
  have 5: "terminate_loop w7 7 0 [102, 103, - 1] =
      Inr [Terminated 0, Kill 102, Terminated 1, Kill 103]"
    using T [THEN conjunct2, THEN conjunct2, THEN conjunct2, THEN conjunct2, THEN conjunct2,
        rule_format, of 7]
    unfolding sp tm by simp
  from e sp(1) 3 4 5 show ?thesis by simp
qed

section \<open>When every child has exited\<close>

lemma report_loop_all_exited:
  "- 1 \<notin> set ps \<Longrightarrow> \<forall>i < length ps. wait_at w (n + i) (ps ! i) \<noteq> 0 \<Longrightarrow>
   report_loop w full n index (ps @ - 1 # rest) counters done =
     Inr (map (\<lambda>i. Exited (index + i)) [0..<length ps], counters, done, n + length ps)"
proof (induction ps arbitrary: n index counters)
  case Nil
  then show ?case by simp
next
  case (Cons p ps)
  then have p: "p \<noteq> - 1" "wait_at w n p \<noteq> 0" and ps: "- 1 \<notin> set ps" by auto
  have w: "\<forall>i < length ps. wait_at w (Suc n + i) (ps ! i) \<noteq> 0"
    using Cons.prems(2) by force
  have c: "take 1 counters @ tl counters = counters"
    by (cases counters) simp_all
  show ?case
    using p Cons.IH [OF ps w, of "Suc index" "tl counters"] c
    by (simp add: upt_0_Suc_map comp_def del: upt_Suc)
qed

lemma report_loop_no_handler:
  "report_loop w full n index pids counters done = Inr (evs, cs, d, n') \<Longrightarrow>
   filter handler_event evs = []"
proof (induction pids arbitrary: n index counters "done" evs cs d n')
  case Nil
  then show ?case by simp
next
  case (Cons p pids)
  show ?case
  proof (cases "p = - 1")
    case True
    with Cons.prems show ?thesis by simp
  next
    case False
    with Cons.prems Cons.IH show ?thesis
      by (auto split: sum.splits list.splits if_splits prod.splits)
  qed
qed

lemma terminate_program_last:
  "terminate_program w n pids e = Exits tr c \<Longrightarrow> c = 0 \<and> tr \<noteq> [] \<and> last tr = Exiting e"
  by (auto simp: terminate_program_def split: sum.splits)

lemma prefix_run_Exits:
  "prefix_run evs r = Exits tr c \<Longrightarrow> \<exists>tr'. r = Exits tr' c \<and> tr = evs @ tr'"
  by (cases r) auto

lemma wait_loop_ends:
  "wait_loop fuel w g pids t now n = Some (Inl (Exits tr c)) \<Longrightarrow>
   c = 0 \<and> tr \<noteq> [] \<and> (\<exists>e. last tr = Exiting e)"
proof (induction fuel arbitrary: g now n tr c)
  case 0
  then show ?case by simp
next
  case (Suc fuel)
  let ?g = "if sigint_at w n then sig_handler g else g"
  let ?ev = "if sigint_at w n then [SignalReceived] else []"
  from Suc.prems have lt: "now - t < 5"
    by (auto split: if_splits)
  show ?case
  proof (cases "check_timer ?g (time_at w n) = 1")
    case True
    with Suc.prems lt have "prefix_run ?ev
        (terminate_program w (Suc n) pids (time_at w n - START_TIME ?g)) = Exits tr c"
      by (simp add: Let_def)
    from prefix_run_Exits [OF this] obtain tr' where
      "terminate_program w (Suc n) pids (time_at w n - START_TIME ?g) = Exits tr' c"
      "tr = ?ev @ tr'" by blast
    with terminate_program_last [OF this(1)] show ?thesis by auto
  next
    case False
    with Suc.prems lt obtain r where
      r: "wait_loop fuel w ?g pids t (time_at w n) (Suc n) = Some (Inl r)"
      and p: "prefix_run ?ev r = Exits tr c"
      by (auto simp: Let_def split: option.splits sum.splits prod.splits)
    from prefix_run_Exits [OF p] obtain tr' where "r = Exits tr' c" "tr = ?ev @ tr'" by blast
    with Suc.IH [of ?g "time_at w n" "Suc n" tr' c] r show ?thesis by auto
  qed
qed

lemma wait_loop_no_handler:
  "wait_loop fuel w g pids t now n = Some (Inr (evs, g', n')) \<Longrightarrow> filter handler_event evs = []"
proof (induction fuel arbitrary: g now n evs)
  case 0
  then show ?case by simp
next
  case (Suc fuel)
  show ?case
  proof (cases "now - t < 5")
    case False
    with Suc.prems show ?thesis by simp
  next
    case True
    let ?g = "if sigint_at w n then sig_handler g else g"
    let ?ev = "if sigint_at w n then [SignalReceived] else []"
    from Suc.prems True obtain evs' where
      "wait_loop fuel w ?g pids t (time_at w n) (Suc n) = Some (Inr (evs', g', n'))"
      "evs = ?ev @ evs'"
      by (auto simp: Let_def split: option.splits sum.splits prod.splits if_splits)
    with Suc.IH [of ?g "time_at w n" "Suc n" evs'] show ?thesis by auto
  qed
qed

lemma periodic_loop_ends:
  "periodic_loop fuel w g full pids counters n = Some (Exits tr c) \<Longrightarrow>
   c = 0 \<and> tr \<noteq> [] \<and>
   ((\<exists>e. last tr = Exiting e) \<or> (\<exists>t. last tr = ExitingDots t) \<and> filter handler_event tr = [])"
proof (induction fuel arbitrary: g counters n tr c)
  case 0
  then show ?case by simp
next
  case (Suc fuel)
  from Suc.prems obtain evs counters' d n' where
    rep: "report_loop w full n 0 pids counters 1 = Inr (evs, counters', d, n')"
    by (auto split: sum.splits)
  note nh = report_loop_no_handler [OF rep]
  show ?case
  proof (cases "d = 1")
    case True
    with Suc.prems rep nh show ?thesis by auto
  next
    case False
    show ?thesis
    proof (cases "wait_loop fuel w g pids (time_at w n') (time_at w n') (Suc n')")
      case None
      with Suc.prems rep False show ?thesis by simp
    next
      case (Some res)
      show ?thesis
      proof (cases res)
        case (Inl r)
        with Suc.prems rep False Some
        have p: "prefix_run ([Dots, NormalReport] @ evs @ [Dots]) r = Exits tr c" by simp
        from prefix_run_Exits [OF p] obtain tr' where
          r: "r = Exits tr' c" and tr: "tr = ([Dots, NormalReport] @ evs @ [Dots]) @ tr'" by blast
        from wait_loop_ends [OF Some [unfolded Inl r]] tr show ?thesis by auto
      next
        case (Inr x)
        obtain evs' g' n'' where x: "x = (evs', g', n'')" by (cases x)
        with Suc.prems rep False Some Inr obtain r where
          rec: "periodic_loop fuel w g' full pids counters' n'' = Some r"
          and p: "prefix_run ([Dots, NormalReport] @ evs @ [Dots] @ evs') r = Exits tr c"
          by (auto split: option.splits)
        from prefix_run_Exits [OF p] obtain tr' where
          r: "r = Exits tr' c" and tr: "tr = ([Dots, NormalReport] @ evs @ [Dots] @ evs') @ tr'"
          by blast
        from wait_loop_no_handler [OF Some [unfolded Inr x]]
        have nh': "filter handler_event evs' = []" .
        from Suc.IH [OF rec [unfolded r]] tr nh nh' show ?thesis by auto
      qed
    qed
  qed
qed

lemma wait_loop_quiet:
  assumes "TARGET_TIME g = - 1" "KILL_STATE g \<noteq> 1" "\<forall>m. \<not> sigint_at w m"
  shows "wait_loop fuel w g pids t now n = Some res \<Longrightarrow> \<exists>evs n'. res = Inr (evs, g, n')"
proof (induction fuel arbitrary: now n res)
  case 0
  then show ?case by simp
next
  case (Suc fuel)
  have c: "check_timer g (time_at w n) \<noteq> 1"
    using assms(1,2) by (simp add: check_timer_def)
  show ?case
  proof (cases "now - t < 5")
    case False
    with Suc.prems show ?thesis by auto
  next
    case True
    with Suc.prems assms(3) c obtain res' where
      r: "wait_loop fuel w g pids t (time_at w n) (Suc n) = Some res'"
      by (auto simp: Let_def split: option.splits)
    from Suc.IH [OF r] obtain evs n' where "res' = Inr (evs, g, n')" by blast
    with Suc.prems True assms(3) c r show ?thesis
      by (auto simp: Let_def)
  qed
qed

lemma periodic_loop_quiet:
  assumes "TARGET_TIME g = - 1" "KILL_STATE g \<noteq> 1" "\<forall>m. \<not> sigint_at w m"
  shows "periodic_loop fuel w g full pids counters n = Some (Exits tr c) \<Longrightarrow>
    \<exists>t. last tr = ExitingDots t"
proof (induction fuel arbitrary: counters n tr c)
  case 0
  then show ?case by simp
next
  case (Suc fuel)
  from Suc.prems obtain evs counters' d n' where
    rep: "report_loop w full n 0 pids counters 1 = Inr (evs, counters', d, n')"
    by (auto split: sum.splits)
  show ?case
  proof (cases "d = 1")
    case True
    with Suc.prems rep show ?thesis by auto
  next
    case False
    with Suc.prems rep obtain res where
      wl: "wait_loop fuel w g pids (time_at w n') (time_at w n') (Suc n') = Some res"
      by (auto split: option.splits)
    from wait_loop_quiet [OF assms wl] obtain evs' n'' where res: "res = Inr (evs', g, n'')"
      by blast
    with Suc.prems rep False wl obtain r where
      rec: "periodic_loop fuel w g full pids counters' n'' = Some r"
      and p: "prefix_run ([Dots, NormalReport] @ evs @ [Dots] @ evs') r = Exits tr c"
      by (auto split: option.splits)
    from prefix_run_Exits [OF p] obtain tr' where
      r: "r = Exits tr' c" and tr: "tr = ([Dots, NormalReport] @ evs @ [Dots] @ evs') @ tr'"
      by blast
    from periodic_loop_ends [OF rec [unfolded r]] have "tr' \<noteq> []" by simp
    with Suc.IH [OF rec [unfolded r]] tr show ?thesis by auto
  qed
qed

text \<open>
  C3. On an array that holds the pids \<open>ps\<close> and then \<open>-1\<close>:
  \<^item> a pass in which \<open>waitpid\<close> reports no process alive prints an \<open>Exited\<close> line for each,
    then the total time, and the program exits with code 0 there, whatever the globals
    are: also when the time limit has passed or \<open>KILL_STATE\<close> is 1, since the loop looks at
    them only after this exit. \<open>terminate_program\<close> is not called;
  \<^item> a run that ends with this exit (the line of the total time followed by \<open>...\<close>) has
    exit code 0 and no \<open>Terminating\<close> banner, no \<open>Terminated\<close> line and no kill anywhere;
  \<^item> with no time limit and no interrupt, a run that ends ends with this exit.
\<close>

theorem all_exited_exit:
  assumes "- 1 \<notin> set ps"
  shows
    "((\<forall>i < length ps. wait_at w (n + i) (ps ! i) \<noteq> 0) \<longrightarrow>
        periodic_loop (Suc fuel) w g full (ps @ - 1 # rest) counters n =
          Some (Exits ([Dots, NormalReport] @ map Exited [0..<length ps]
                       @ [ExitingDots (time_at w (n + length ps) - START_TIME g)]) 0)) \<and>
     (\<forall>fuel' tr c t.
        periodic_loop fuel' w g full (ps @ - 1 # rest) counters n = Some (Exits tr c) \<and>
        last tr = ExitingDots t \<longrightarrow>
        c = 0 \<and> filter handler_event tr = []) \<and>
     (TARGET_TIME g = - 1 \<and> KILL_STATE g \<noteq> 1 \<and> (\<forall>m. \<not> sigint_at w m) \<longrightarrow>
        (\<forall>fuel' tr c.
           periodic_loop fuel' w g full (ps @ - 1 # rest) counters n = Some (Exits tr c) \<longrightarrow>
           c = 0 \<and> (\<exists>t. last tr = ExitingDots t) \<and> filter handler_event tr = []))"
proof (intro conjI allI impI)
  assume "\<forall>i < length ps. wait_at w (n + i) (ps ! i) \<noteq> 0"
  from report_loop_all_exited [OF assms this, of full 0 rest counters 1]
  show "periodic_loop (Suc fuel) w g full (ps @ - 1 # rest) counters n =
      Some (Exits ([Dots, NormalReport] @ map Exited [0..<length ps]
                   @ [ExitingDots (time_at w (n + length ps) - START_TIME g)]) 0)"
    by simp
next
  fix fuel' tr c t
  assume a: "periodic_loop fuel' w g full (ps @ - 1 # rest) counters n = Some (Exits tr c) \<and>
      last tr = ExitingDots t"
  from periodic_loop_ends [of fuel' w g full "ps @ - 1 # rest" counters n tr c] a
  show "c = 0" "filter handler_event tr = []" by auto
next
  fix fuel' tr c
  assume q: "TARGET_TIME g = - 1 \<and> KILL_STATE g \<noteq> 1 \<and> (\<forall>m. \<not> sigint_at w m)"
    and r: "periodic_loop fuel' w g full (ps @ - 1 # rest) counters n = Some (Exits tr c)"
  from q have q': "TARGET_TIME g = - 1" "KILL_STATE g \<noteq> 1" "\<forall>m. \<not> sigint_at w m" by simp_all
  from periodic_loop_quiet [OF q' r] obtain t where l: "last tr = ExitingDots t" ..
  with periodic_loop_ends [OF r]
  show "c = 0" "\<exists>t. last tr = ExitingDots t" "filter handler_event tr = []" by auto
qed

theorem all_exited_exit_witness:
  "periodic_loop 1 w3 \<lparr>TARGET_TIME = 2, KILL_STATE = 1, START_TIME = 1000\<rparr> 500 [7, 8, - 1] [0, 0] 4 =
     Some (Exits [Dots, NormalReport, Exited 0, Exited 1, ExitingDots 6] 0) \<and>
   check_timer \<lparr>TARGET_TIME = 2, KILL_STATE = 1, START_TIME = 1000\<rparr> 1006 = 1 \<and>
   filter handler_event [Dots, NormalReport, Exited 0, Exited 1, ExitingDots 6] = [] \<and>
   periodic_loop 5 w3q \<lparr>TARGET_TIME = - 1, KILL_STATE = - 1, START_TIME = 1000\<rparr> 500 [7, - 1] [0] 4 =
     Some (Exits [Dots, NormalReport, Running 0 30 5, Dots,
                  Dots, NormalReport, Exited 0, ExitingDots 27] 0)"
proof -
  let ?g = "\<lparr>TARGET_TIME = 2, KILL_STATE = 1, START_TIME = 1000\<rparr>"
  have a: "- 1 \<notin> set [7, 8 :: int]" by simp
  have s: "[0..<2] = [0, 1]" by (simp add: upt_rec)
  note T = all_exited_exit [OF a, where w = w3 and n = 4 and fuel = 0 and g = ?g and full = 500
      and rest = "[]" and counters = "[0, 0]"]
  have 1: "periodic_loop 1 w3 ?g 500 [7, 8, - 1] [0, 0] 4 =
     Some (Exits [Dots, NormalReport, Exited 0, Exited 1, ExitingDots 6] 0)"
    using T [THEN conjunct1] by (simp add: w3_def s less_Suc_eq)
  have 2: "filter handler_event [Dots, NormalReport, Exited 0, Exited 1, ExitingDots 6] = []"
    using T [THEN conjunct2, THEN conjunct1, rule_format,
        of 1 "[Dots, NormalReport, Exited 0, Exited 1, ExitingDots 6]" 0 6] 1
    by simp
  let ?q = "\<lparr>TARGET_TIME = - 1, KILL_STATE = - 1, START_TIME = 1000\<rparr>"
  have "- 1 \<notin> set [7 :: int]" by simp
  note Q = all_exited_exit [OF this, where w = w3q and n = 4 and g = ?q and full = 500
      and rest = "[]" and counters = "[0]", THEN conjunct2, THEN conjunct2]
  have 3: "periodic_loop 5 w3q ?q 500 [7, - 1] [0] 4 = Some (Exits
      [Dots, NormalReport, Running 0 30 5, Dots, Dots, NormalReport, Exited 0, ExitingDots 27] 0)"
    by code_simp
  have q: "TARGET_TIME ?q = - 1 \<and> KILL_STATE ?q \<noteq> 1 \<and> (\<forall>m. \<not> sigint_at w3q m)"
    by (simp add: w3q_def)
  have 4: "filter handler_event
      [Dots, NormalReport, Running 0 30 5, Dots, Dots, NormalReport, Exited 0, ExitingDots 27] = []"
    using Q [rule_format, OF q] 3 by simp
  from 1 2 3 4 show ?thesis by (simp add: check_timer_def)
qed

end
